theory Spec2Isabelle
  imports Main "HOL-Library.AList" "HOL-Library.Multiset" "HOL-Library.Word" "HOL-Library.Log_Nat"
begin

section \<open>Noodlification of segment automata (src/nfa/noodlify.cc)\<close>

text \<open>
  The development embeds the three functions of \<^verbatim>\<open>noodlify.cc\<close>:
  \<^verbatim>\<open>get_num_of_permutations\<close>, \<^verbatim>\<open>SegNfa::noodlify\<close> and the two overloads of
  \<^verbatim>\<open>SegNfa::noodlify_for_equation\<close>.  The file is written against the NFA library
  (\<^verbatim>\<open>mata/nfa.hh\<close>, \<^verbatim>\<open>mata/noodlify.hh\<close>), whose operations (\<^verbatim>\<open>trim\<close>, \<^verbatim>\<open>Segmentation\<close>,
  \<^verbatim>\<open>get_reachable_states\<close>, \<^verbatim>\<open>concatenate\<close>, ...) are called but not defined there.
  They are taken as a record of operations \<open>lib\<close>, which also holds the order in which
  the standard library iterates an \<^verbatim>\<open>unordered_map\<close>, so that every theorem holds for
  every implementation of the two libraries.
\<close>

subsection \<open>Data model\<close>

type_synonym State = nat
type_synonym Symbol = nat

text \<open>\<^verbatim>\<open>struct Trans { State src; Symbol symb; State tgt; }\<close>\<close>

record Trans =
  src :: State
  symb :: Symbol
  tgt :: State

text \<open>One entry of a state's post list: a symbol and the set of its targets.\<close>

record TransSymbolStates =
  symbol :: Symbol
  states_to :: "State list"

text \<open>
  An automaton.  The code reads and assigns the fields \<^verbatim>\<open>initialstates\<close> and
  \<^verbatim>\<open>finalstates\<close>; the transition relation is only reached through the library.
  A \<^verbatim>\<open>StateSet\<close> is an ordered vector without duplicates, iterated in ascending
  order; it is modelled by the list of its elements in iteration order.
\<close>

record Nfa =
  transitionrelation :: "TransSymbolStates list list"
  initialstates :: "State list"
  finalstates :: "State list"

text \<open>
  What \<^verbatim>\<open>Segmentation\<close> hands to \<^verbatim>\<open>noodlify\<close>: the raw segments and the
  \<^verbatim>\<open>unordered_map\<close> from depth to the \<open>\<epsilon>\<close>-transitions of that depth, as the list of its
  entries in iteration order.
\<close>

record Segmentation =
  get_segments_raw :: "Nfa list"
  get_epsilon_depths :: "(nat \<times> Trans list) list"

text \<open>
  The ways a call can end without a result: the segmentation rejects the automaton;
  \<^verbatim>\<open>unordered_map::at\<close> misses a key; \<^verbatim>\<open>OrdVector::remove\<close> misses its key; a vector is
  indexed out of range or \<^verbatim>\<open>__builtin_clz\<close> is applied to \<open>0\<close> (behaviour undefined in C++).
\<close>

datatype error = MalformedSegmentation | OutOfRange | KeyNotInOrdVector | UndefinedBehaviour

text \<open>
  What the file uses and does not define: the operations of the NFA library, over an
  alphabet type \<open>'al\<close>, and the order in which the standard library iterates an
  \<^verbatim>\<open>unordered_map\<close>.  C++ leaves that order to the implementation (it depends on the hash
  function, the number of buckets and the history of the table):
  \<open>unordered_map_order\<close> takes the entries in the order in which their keys were inserted
  and returns them in the order in which a range-based \<^verbatim>\<open>for\<close> visits them.
\<close>

record 'al NfaLib =
  make_segmentation :: "Nfa \<Rightarrow> Symbol \<Rightarrow> error + Segmentation"
  trim :: "Nfa \<Rightarrow> Nfa"
  get_num_of_states :: "Nfa \<Rightarrow> nat"
  get_reachable_states :: "Nfa \<Rightarrow> State list"
  get_transitions_from :: "Nfa \<Rightarrow> State \<Rightarrow> TransSymbolStates list"
  get_symbols :: "'al \<Rightarrow> Symbol list"
  unify_initial :: "Nfa \<Rightarrow> Nfa"
  unify_final :: "Nfa \<Rightarrow> Nfa"
  is_lang_empty :: "Nfa \<Rightarrow> bool"
  from_nfas :: "Nfa list \<Rightarrow> 'al"
  add_symbols_from :: "'al \<Rightarrow> Nfa \<Rightarrow> 'al"
  get_next_value :: "'al \<Rightarrow> Symbol \<times> 'al"
  concatenate :: "Nfa \<Rightarrow> Nfa \<Rightarrow> Symbol \<Rightarrow> Nfa"
  intersection :: "Nfa \<Rightarrow> Nfa \<Rightarrow> Symbol \<Rightarrow> Nfa"
  reduce :: "Nfa \<Rightarrow> Nfa"
  invert :: "Nfa \<Rightarrow> Nfa"
  unordered_map_order :: "(State \<times> State list) list \<Rightarrow> (State \<times> State list) list"

type_synonym Noodle = "Nfa list"
type_synonym NoodleSequence = "Noodle list"
type_synonym SegmentMap = "State \<times> State \<Rightarrow> Nfa option"

subsection \<open>Helpers: loops with an error exit, text output\<close>

text \<open>A loop over a list whose body may end the call.\<close>

fun fold_err :: "('s \<Rightarrow> 'a \<Rightarrow> error + 's) \<Rightarrow> 's \<Rightarrow> 'a list \<Rightarrow> error + 's" where
  "fold_err f s [] = Inr s"
| "fold_err f s (x # xs) = (case f s x of Inl e \<Rightarrow> Inl e | Inr s' \<Rightarrow> fold_err f s' xs)"

text \<open>\<^verbatim>\<open>operator<<\<close> on an unsigned integer: its decimal digits.\<close>

definition digit_char :: "nat \<Rightarrow> char" where
  "digit_char d = ''0123456789'' ! d"

function show_nat :: "nat \<Rightarrow> string" where
  "show_nat n = (if n < 10 then [digit_char n] else show_nat (n div 10) @ [digit_char (n mod 10)])"
  by pat_completeness auto
termination
  by (relation "measure id") auto

declare show_nat.simps [simp del]

definition endl :: string where
  "endl = [CHR 0x0A]"

definition prime :: string where
  "prime = [CHR 0x27]"

text \<open>
  The idiom \<^verbatim>\<open>bool isFirst = true; for (x : xs) { if (isFirst) isFirst = false; else out << sep; out << f(x); }\<close>
  that the printer uses for every separated list.
\<close>

fun print_separated :: "string \<Rightarrow> ('a \<Rightarrow> string) \<Rightarrow> bool \<Rightarrow> 'a list \<Rightarrow> string" where
  "print_separated sep f isFirst [] = []"
| "print_separated sep f isFirst (x # xs) =
     (if isFirst then [] else sep) @ f x @ print_separated sep f False xs"

subsection \<open>\<^verbatim>\<open>get_num_of_permutations\<close> (lines 35-43)\<close>

text \<open>The accumulator is a \<^verbatim>\<open>size_t\<close>: the product is taken modulo \<open>2 ^ 64\<close>.\<close>

definition get_num_of_permutations :: "(nat \<times> Trans list) list \<Rightarrow> nat" where
  "get_num_of_permutations epsilon_depths =
     foldl (\<lambda>num_of_permutations segment. (num_of_permutations * length (snd segment)) mod 2 ^ 64)
       1 epsilon_depths"

subsection \<open>The segment registry \<^verbatim>\<open>segments_one_initial_final\<close> (lines 61-108)\<close>

text \<open>Trim the pinned copy and store it unless it is empty and \<^verbatim>\<open>include_empty\<close> is off.\<close>

definition insert_trimmed ::
  "'al NfaLib \<Rightarrow> bool \<Rightarrow> State \<times> State \<Rightarrow> Nfa \<Rightarrow> SegmentMap \<Rightarrow> SegmentMap" where
  "insert_trimmed lib include_empty key segment m =
     (let trimmed = trim lib segment in
      if get_num_of_states lib trimmed > 0 \<or> include_empty then m(key \<mapsto> trimmed) else m)"

definition first_segment ::
  "'al NfaLib \<Rightarrow> bool \<Rightarrow> State \<Rightarrow> Nfa \<Rightarrow> SegmentMap \<Rightarrow> SegmentMap" where
  "first_segment lib include_empty unused_state seg m =
     foldl (\<lambda>m final_state.
        insert_trimmed lib include_empty (unused_state, final_state)
          (seg\<lparr>finalstates := [final_state]\<rparr>) m)
       m (finalstates seg)"

definition last_segment ::
  "'al NfaLib \<Rightarrow> bool \<Rightarrow> State \<Rightarrow> Nfa \<Rightarrow> SegmentMap \<Rightarrow> SegmentMap" where
  "last_segment lib include_empty unused_state seg m =
     foldl (\<lambda>m init_state.
        insert_trimmed lib include_empty (init_state, unused_state)
          (seg\<lparr>initialstates := [init_state]\<rparr>) m)
       m (initialstates seg)"

definition middle_segment ::
  "'al NfaLib \<Rightarrow> bool \<Rightarrow> Nfa \<Rightarrow> SegmentMap \<Rightarrow> SegmentMap" where
  "middle_segment lib include_empty seg m =
     foldl (\<lambda>m init_state.
        foldl (\<lambda>m final_state.
           insert_trimmed lib include_empty (init_state, final_state)
             (seg\<lparr>initialstates := [init_state], finalstates := [final_state]\<rparr>) m)
          m (finalstates seg))
       m (initialstates seg)"

text \<open>
  The loop over the segments; \<open>is_begin\<close> is \<^verbatim>\<open>iter == segments.begin()\<close>, and
  \<open>rest = []\<close> is \<^verbatim>\<open>iter + 1 == segments.end()\<close>.
\<close>

fun segments_loop ::
  "'al NfaLib \<Rightarrow> bool \<Rightarrow> State \<Rightarrow> bool \<Rightarrow> Nfa list \<Rightarrow> SegmentMap \<Rightarrow> SegmentMap" where
  "segments_loop lib include_empty unused_state is_begin [] m = m"
| "segments_loop lib include_empty unused_state is_begin (seg # rest) m =
     segments_loop lib include_empty unused_state False rest
       (if is_begin then first_segment lib include_empty unused_state seg m
        else if rest = [] then last_segment lib include_empty unused_state seg m
        else middle_segment lib include_empty seg m)"

definition segments_one_initial_final ::
  "'al NfaLib \<Rightarrow> bool \<Rightarrow> State \<Rightarrow> Nfa list \<Rightarrow> SegmentMap" where
  "segments_one_initial_final lib include_empty unused_state segments =
     segments_loop lib include_empty unused_state True segments Map.empty"

subsection \<open>The AFA printer (lines 110-310)\<close>

text \<open>
  The printer writes to \<^verbatim>\<open>std::cerr\<close>; the model returns the text written.
\<close>

definition print_header :: "bool \<Rightarrow> string" where
  "print_header useBits =
     (if \<not> useBits
      then ''@AFA-explicit'' @ endl @ ''%Alphabet-numbers'' @ endl @ ''%Tracks-auto'' @ endl
      else ''@AFA-bits'' @ endl)"

definition print_q :: "State \<Rightarrow> string" where
  "print_q s = ''q'' @ show_nat s"

text \<open>The locals of lines 136-139, updated by the loop of lines 140-154.\<close>

record NoodleInit =
  segmentReachableStates :: "State list list"
  initialStatesNoodles :: "State list list"
  allSegmentsInitialStates :: "State list"
  initStateToPreviousNonFinalStates :: "(State \<times> State list) list"

text \<open>
  \<^verbatim>\<open>initStateToPreviousNonFinalStates\<close> is an \<^verbatim>\<open>unordered_map\<close>.  The locals hold its
  entries in the order in which the keys were inserted: an assignment replaces the value
  of a key in place, or appends the entry of a new key.  This list is the content of the
  table and the history of its insertions, not the order of its iteration: the loop of
  line 213 visits the entries in the order \<open>unordered_map_order\<close> (see \<open>print_afa\<close>).
\<close>

definition init_state_step :: "State list list \<Rightarrow> NoodleInit \<Rightarrow> State \<Rightarrow> NoodleInit" where
  "init_state_step oldInitialStatesNoodles st init =
     st\<lparr> initStateToPreviousNonFinalStates :=
           AList.update init (last (segmentReachableStates st))
             (initStateToPreviousNonFinalStates st),
         allSegmentsInitialStates := allSegmentsInitialStates st @ [init],
         initialStatesNoodles :=
           initialStatesNoodles st @ map (\<lambda>oldNoodle. oldNoodle @ [init]) oldInitialStatesNoodles \<rparr>"

definition segment_step :: "'al NfaLib \<Rightarrow> NoodleInit \<Rightarrow> Nfa \<Rightarrow> NoodleInit" where
  "segment_step lib st seg =
     (let oldInitialStatesNoodles = initialStatesNoodles st;
          st' = foldl (init_state_step oldInitialStatesNoodles)
                  (st\<lparr>initialStatesNoodles := []\<rparr>) (initialstates seg)
      in st'\<lparr>segmentReachableStates :=
               segmentReachableStates st' @ [get_reachable_states lib seg]\<rparr>)"

text \<open>\<^verbatim>\<open>segments[0]\<close> of an empty vector is undefined.\<close>

definition collect_initial_states :: "'al NfaLib \<Rightarrow> Nfa list \<Rightarrow> error + NoodleInit" where
  "collect_initial_states lib segments =
     (case segments of
        [] \<Rightarrow> Inl UndefinedBehaviour
      | seg0 # rest \<Rightarrow>
          Inr (foldl (segment_step lib)
                 \<lparr> segmentReachableStates = [get_reachable_states lib seg0],
                   initialStatesNoodles = [[]],
                   allSegmentsInitialStates = [],
                   initStateToPreviousNonFinalStates = [] \<rparr>
                 rest))"

definition print_initial :: "Nfa \<Rightarrow> State list list \<Rightarrow> string" where
  "print_initial aut noodles =
     ''%Initial ('' @ print_separated '' | '' print_q True (initialstates aut) @ '')''
     @ '' & (''
     @ print_separated '' | ''
         (\<lambda>initialStatesNoodle.
            ''('' @ print_separated '' & ''
                     (\<lambda>init. print_q init @ '' & '' @ print_q init @ prime)
                     True initialStatesNoodle
            @ '')'')
         True noodles
     @ '')'' @ endl"

text \<open>
  Line 181, \<^verbatim>\<open>initStateToPreviousNonFinalStates[tran.tgt].remove(tran.src)\<close>.
  \<^verbatim>\<open>operator[]\<close> on a missing key makes an empty entry; \<^verbatim>\<open>OrdVector::remove\<close> erases
  the key from the ordered vector and raises when the key is not in it.
\<close>

definition remove_previous_final ::
  "(State \<times> State list) list \<Rightarrow> Trans \<Rightarrow> error + (State \<times> State list) list" where
  "remove_previous_final m tran =
     (case map_of m (tgt tran) of
        None \<Rightarrow> Inl KeyNotInOrdVector
      | Some states \<Rightarrow>
          if src tran \<in> set states
          then Inr (AList.update (tgt tran) (remove1 (src tran) states) m)
          else Inl KeyNotInOrdVector)"

definition remove_epsilon_sources ::
  "(nat \<times> Trans list) list \<Rightarrow> (State \<times> State list) list \<Rightarrow> error + (State \<times> State list) list" where
  "remove_epsilon_sources epsilon_depths m =
     fold_err (\<lambda>m elem. fold_err remove_previous_final m (snd elem)) m epsilon_depths"

definition stateSetMinus :: "State list \<Rightarrow> State list \<Rightarrow> State list" where
  "stateSetMinus lhs rhs = filter (\<lambda>s. count_list rhs s = 0) lhs"

definition print_not_state :: "State \<Rightarrow> string" where
  "print_not_state s = ''!q'' @ show_nat s"

text \<open>One iteration of the loop of lines 213-229.\<close>

definition print_previous_nonfinal :: "State \<times> State list \<Rightarrow> string" where
  "print_previous_nonfinal elem =
     (if length (snd elem) = 0 then []
      else '' & (!q'' @ show_nat (fst elem) @ prime @ '' | (''
           @ print_separated '' & '' print_not_state True (snd elem) @ ''))'')"

text \<open>
  Lines 198-230.  \<open>visited\<close> holds the entries of \<^verbatim>\<open>initStateToPreviousNonFinalStates\<close> in the
  order in which the loop of line 213 visits them.
\<close>

definition print_final :: "State list \<Rightarrow> (State \<times> State list) list \<Rightarrow> string" where
  "print_final finalSegNonFinalStates visited =
     ''%Final ''
     @ (if length finalSegNonFinalStates = 0 then ''true''
        else ''('' @ print_separated '' & '' print_not_state True finalSegNonFinalStates @ '')'')
     @ concat (map print_previous_nonfinal visited)
     @ endl"

subsubsection \<open>Symbol encoding (lines 232-266)\<close>

text \<open>
  \<^verbatim>\<open>__builtin_clz\<close> counts the leading zero bits of a 32-bit unsigned value; its result
  for \<open>0\<close> is undefined.
\<close>

fun clz_from :: "nat \<Rightarrow> 32 word \<Rightarrow> nat" where
  "clz_from 0 w = 0"
| "clz_from (Suc k) w = (if bit w k then 0 else Suc (clz_from k w))"

definition builtin_clz :: "32 word \<Rightarrow> nat option" where
  "builtin_clz w = (if w = 0 then None else Some (clz_from 32 w))"

text \<open>
  \<open>n\<close> is \<^verbatim>\<open>alph.get_symbols().size()\<close>; the argument of \<^verbatim>\<open>__builtin_clz\<close> is converted to
  \<^verbatim>\<open>unsigned int\<close>.
\<close>

definition compute_neededBits :: "nat \<Rightarrow> error + nat" where
  "compute_neededBits n =
     (if n > 1
      then (case builtin_clz (word_of_nat (n - 1)) of
              None \<Rightarrow> Inl UndefinedBehaviour
            | Some z \<Rightarrow> Inr (32 - z))
      else Inr 1)"

text \<open>\<^verbatim>\<open>std::bitset<32>(x).to_string()\<close>: 32 characters, most significant bit first.\<close>

definition bitset32_to_string :: "32 word \<Rightarrow> string" where
  "bitset32_to_string w = map (\<lambda>j. if bit w (31 - j) then CHR ''1'' else CHR ''0'') [0..<32]"

record RemapState =
  symbolRemapping :: "Symbol \<Rightarrow> Symbol option"
  newSymbol :: Symbol

text \<open>
  The loop of lines 253-261 from \<open>i\<close> on, \<open>n\<close> iterations left.  (\<open>i\<close> stays below
  \<^verbatim>\<open>neededBits\<close>, which is at most 32, so \<^verbatim>\<open>31 - i\<close> does not wrap.)
\<close>

fun print_bits :: "string \<Rightarrow> nat \<Rightarrow> nat \<Rightarrow> nat \<Rightarrow> string" where
  "print_bits symBits startingBit i 0 = []"
| "print_bits symBits startingBit i (Suc n) =
     (if i \<noteq> 0 then '' & '' else [])
     @ (if symBits ! (31 - i) = CHR ''0'' then ''!'' else [])
     @ ''a'' @ show_nat (startingBit + i)
     @ print_bits symBits startingBit (Suc i) n"

definition encode_symbol :: "bool \<Rightarrow> nat \<Rightarrow> Symbol \<Rightarrow> nat \<Rightarrow> string" where
  "encode_symbol useBits neededBits remappedSymbol trackNum =
     (if useBits
      then print_bits (bitset32_to_string (word_of_nat remappedSymbol)) (trackNum * neededBits)
             0 neededBits
      else show_nat remappedSymbol @ ''@t'' @ show_nat trackNum)"

text \<open>The lambda \<^verbatim>\<open>remapSymbol\<close>; its captured table and counter are passed and returned.\<close>

definition remapSymbol ::
  "bool \<Rightarrow> nat \<Rightarrow> Symbol \<Rightarrow> nat \<Rightarrow> RemapState \<Rightarrow> string \<times> RemapState" where
  "remapSymbol useBits neededBits symToRemap trackNum st =
     (case symbolRemapping st symToRemap of
        None \<Rightarrow>
          (encode_symbol useBits neededBits (newSymbol st) trackNum,
           st\<lparr> symbolRemapping := (symbolRemapping st)(symToRemap \<mapsto> newSymbol st),
               newSymbol := newSymbol st + 1 \<rparr>)
      | Some remappedSymbol \<Rightarrow>
          (encode_symbol useBits neededBits remappedSymbol trackNum, st))"

subsubsection \<open>Transition formulas (lines 268-302), stubs and marker\<close>

fun print_trans_from ::
  "bool \<Rightarrow> nat \<Rightarrow> nat \<Rightarrow> bool \<Rightarrow> TransSymbolStates list \<Rightarrow> string \<times> RemapState
     \<Rightarrow> string \<times> RemapState" where
  "print_trans_from useBits neededBits varNum isFirstTran [] acc = acc"
| "print_trans_from useBits neededBits varNum isFirstTran (tran # rest) acc =
     (let (symText, rs) = remapSymbol useBits neededBits (symbol tran) varNum (snd acc)
      in print_trans_from useBits neededBits varNum False rest
           (fst acc @ (if isFirstTran then [] else '' | '')
              @ ''('' @ symText @ '' & (''
              @ print_separated '' | '' print_q True (states_to tran) @ ''))'',
            rs))"

definition print_transitions_of_state ::
  "'al NfaLib \<Rightarrow> bool \<Rightarrow> nat \<Rightarrow> nat \<Rightarrow> Nfa \<Rightarrow> string \<times> RemapState \<Rightarrow> State
     \<Rightarrow> string \<times> RemapState" where
  "print_transitions_of_state lib useBits neededBits varNum varAut acc s =
     (let transFromState = get_transitions_from lib varAut s in
      if length transFromState = 0 then acc
      else (let acc' = print_trans_from useBits neededBits varNum True transFromState
                         (fst acc @ print_q s @ '' '', snd acc)
            in (fst acc' @ endl, snd acc')))"

text \<open>\<^verbatim>\<open>segments[varLoc]\<close> and \<^verbatim>\<open>segmentReachableStates[varLoc]\<close> are unchecked accesses.\<close>

definition print_var_location ::
  "'al NfaLib \<Rightarrow> bool \<Rightarrow> nat \<Rightarrow> Nfa list \<Rightarrow> State list list \<Rightarrow> nat \<Rightarrow> string \<times> RemapState
     \<Rightarrow> nat \<Rightarrow> error + string \<times> RemapState" where
  "print_var_location lib useBits neededBits segments reachable varNum acc varLoc =
     (if varLoc < length segments \<and> varLoc < length reachable
      then Inr (foldl (print_transitions_of_state lib useBits neededBits varNum (segments ! varLoc))
                  acc (reachable ! varLoc))
      else Inl UndefinedBehaviour)"

definition print_transitions ::
  "'al NfaLib \<Rightarrow> bool \<Rightarrow> nat \<Rightarrow> Nfa list \<Rightarrow> State list list \<Rightarrow> nat list list
     \<Rightarrow> string \<times> RemapState \<Rightarrow> error + string \<times> RemapState" where
  "print_transitions lib useBits neededBits segments reachable variableLocations acc =
     fold_err (\<lambda>acc varNum.
         fold_err (print_var_location lib useBits neededBits segments reachable varNum)
           acc (variableLocations ! varNum))
       acc [0..<length variableLocations]"

definition print_stub :: "State \<Rightarrow> string" where
  "print_stub init = print_q init @ prime @ '' '' @ print_q init @ prime @ endl"

definition print_marker :: string where
  "print_marker = ''#AFA was fully printed'' @ endl"

text \<open>
  The whole printer, in the order of the code.  The range-based \<^verbatim>\<open>for\<close> of line 213 goes
  through the \<^verbatim>\<open>unordered_map\<close> in the order of the standard library.
\<close>

definition print_afa ::
  "'al NfaLib \<Rightarrow> Nfa \<Rightarrow> Segmentation \<Rightarrow> nat list list \<Rightarrow> 'al \<Rightarrow> bool \<Rightarrow> error + string" where
  "print_afa lib aut segmentation variableLocations alph useBits =
     (let segments = get_segments_raw segmentation in
      case collect_initial_states lib segments of
        Inl e \<Rightarrow> Inl e
      | Inr st \<Rightarrow>
     (case remove_epsilon_sources (get_epsilon_depths segmentation)
             (initStateToPreviousNonFinalStates st) of
        Inl e \<Rightarrow> Inl e
      | Inr previousNonFinal \<Rightarrow>
     (let finalSegNonFinalStates =
            stateSetMinus (last (segmentReachableStates st)) (finalstates (last segments)) in
      case compute_neededBits (length (get_symbols lib alph)) of
        Inl e \<Rightarrow> Inl e
      | Inr neededBits \<Rightarrow>
     (case print_transitions lib useBits neededBits segments (segmentReachableStates st)
             variableLocations
             (print_header useBits
                @ print_initial aut (initialStatesNoodles st)
                @ print_final finalSegNonFinalStates
                    (unordered_map_order lib previousNonFinal),
              \<lparr>symbolRemapping = Map.empty, newSymbol = 0\<rparr>) of
        Inl e \<Rightarrow> Inl e
      | Inr acc \<Rightarrow>
          Inr (fst acc @ concat (map print_stub (allSegmentsInitialStates st)) @ print_marker)))))"

subsection \<open>Enumeration of the noodles (lines 312-368)\<close>

text \<open>
  The inner loop of lines 325-330 from \<open>depth\<close> on, \<open>n\<close> depths left.
  \<^verbatim>\<open>epsilon_depths.at(depth)\<close> raises on a missing key; a remainder by \<open>0\<close> is undefined.
\<close>

fun epsilon_noodle_from ::
  "(nat \<times> Trans list) list \<Rightarrow> nat \<Rightarrow> nat \<Rightarrow> nat \<Rightarrow> error + Trans list" where
  "epsilon_noodle_from epsilon_depths depth 0 temp = Inr []"
| "epsilon_noodle_from epsilon_depths depth (Suc n) temp =
     (case map_of epsilon_depths depth of
        None \<Rightarrow> Inl OutOfRange
      | Some trans_at_depth \<Rightarrow>
          (let num_of_trans_at_cur_depth = length trans_at_depth in
           if num_of_trans_at_cur_depth = 0 then Inl UndefinedBehaviour
           else (let computed_index = temp mod num_of_trans_at_cur_depth in
                 case epsilon_noodle_from epsilon_depths (Suc depth) n
                        (temp div num_of_trans_at_cur_depth) of
                   Inl e \<Rightarrow> Inl e
                 | Inr rest \<Rightarrow> Inr (trans_at_depth ! computed_index # rest))))"

text \<open>
  Lines 343-352: the lookups \<^verbatim>\<open>(iter->tgt, next_iter->src)\<close> for consecutive
  \<open>\<epsilon>\<close>-transitions; \<open>None\<close> is \<^verbatim>\<open>all_segments_exist = false\<close>.
\<close>

fun middle_segments :: "SegmentMap \<Rightarrow> Trans list \<Rightarrow> Noodle \<Rightarrow> Noodle option" where
  "middle_segments m (t # t' # rest) noodle =
     (case m (tgt t, src t') of
        None \<Rightarrow> None
      | Some segment \<Rightarrow> middle_segments m (t' # rest) (noodle @ [segment]))"
| "middle_segments m ts noodle = Some noodle"

text \<open>
  Lines 332-366 for one combination: \<open>Inr None\<close> is \<^verbatim>\<open>continue\<close>.  Reading
  \<^verbatim>\<open>epsilon_noodle[0]\<close> of an empty vector is undefined.
\<close>

definition make_noodle :: "SegmentMap \<Rightarrow> State \<Rightarrow> Trans list \<Rightarrow> error + Noodle option" where
  "make_noodle m unused_state epsilon_noodle =
     (case epsilon_noodle of
        [] \<Rightarrow> Inl UndefinedBehaviour
      | t0 # ts \<Rightarrow>
          (case m (unused_state, src t0) of
             None \<Rightarrow> Inr None
           | Some first_seg \<Rightarrow>
               (case middle_segments m epsilon_noodle [first_seg] of
                  None \<Rightarrow> Inr None
                | Some noodle \<Rightarrow>
                    (case m (tgt (last epsilon_noodle), unused_state) of
                       None \<Rightarrow> Inr None
                     | Some last_seg \<Rightarrow> Inr (Some (noodle @ [last_seg]))))))"

text \<open>The loop of line 323 from \<open>index\<close> on.\<close>

function noodles_loop ::
  "SegmentMap \<Rightarrow> State \<Rightarrow> (nat \<times> Trans list) list \<Rightarrow> nat \<Rightarrow> nat \<Rightarrow> NoodleSequence
     \<Rightarrow> error + NoodleSequence" where
  "noodles_loop m unused_state epsilon_depths num_of_permutations index noodles =
     (if index < num_of_permutations
      then (case epsilon_noodle_from epsilon_depths 0 (length epsilon_depths) index of
              Inl e \<Rightarrow> Inl e
            | Inr epsilon_noodle \<Rightarrow>
                (case make_noodle m unused_state epsilon_noodle of
                   Inl e \<Rightarrow> Inl e
                 | Inr None \<Rightarrow>
                     noodles_loop m unused_state epsilon_depths num_of_permutations
                       (Suc index) noodles
                 | Inr (Some noodle) \<Rightarrow>
                     noodles_loop m unused_state epsilon_depths num_of_permutations
                       (Suc index) (noodles @ [noodle])))
      else Inr noodles)"
  by pat_completeness auto
termination
  by (relation "measure (\<lambda>(m, u, e, n, index, noodles). n - index)") auto

declare noodles_loop.simps [simp del]

subsection \<open>\<^verbatim>\<open>SegNfa::noodlify\<close> (lines 47-369)\<close>

text \<open>The result is the returned \<^verbatim>\<open>NoodleSequence\<close> together with the text written.\<close>

definition noodlify ::
  "'al NfaLib \<Rightarrow> Nfa \<Rightarrow> Symbol \<Rightarrow> nat list list \<Rightarrow> 'al \<Rightarrow> bool \<Rightarrow> bool
     \<Rightarrow> error + NoodleSequence \<times> string" where
  "noodlify lib aut epsilon variableLocations alph include_empty useBits =
     (case make_segmentation lib aut epsilon of
        Inl e \<Rightarrow> Inl e
      | Inr segmentation \<Rightarrow>
     (let segments = get_segments_raw segmentation in
      if length segments = 1
      then (let segment = trim lib (segments ! 0) in
            if get_num_of_states lib segment > 0 \<or> include_empty
            then Inr ([[segment]], [])
            else Inr ([], []))
      else
     (let unused_state = get_num_of_states lib aut;
          m = segments_one_initial_final lib include_empty unused_state segments in
      case print_afa lib aut segmentation variableLocations alph useBits of
        Inl e \<Rightarrow> Inl e
      | Inr afaOutput \<Rightarrow>
     (let epsilon_depths = get_epsilon_depths segmentation;
          num_of_permutations = get_num_of_permutations epsilon_depths in
      case noodles_loop m unused_state epsilon_depths num_of_permutations 0 [] of
        Inl e \<Rightarrow> Inl e
      | Inr noodles \<Rightarrow> Inr (noodles, afaOutput)))))"

subsection \<open>\<^verbatim>\<open>SegNfa::noodlify_for_equation\<close> (lines 371-485)\<close>

text \<open>
  Both overloads reach the left-hand automata through references (\<^verbatim>\<open>reference_wrapper\<close>,
  \<^verbatim>\<open>shared_ptr\<close>) and \<^verbatim>\<open>unify_initial\<close>, \<^verbatim>\<open>unify_final\<close> change them in place.  The
  automata live in a store; the sequences hold addresses, and so does the reference to
  the right-hand automaton.  A call returns its result and the store it leaves.
\<close>

type_synonym addr = nat
type_synonym store = "addr \<Rightarrow> Nfa"
type_synonym StringDict = "string \<Rightarrow> string option"

definition unify_all :: "'al NfaLib \<Rightarrow> addr list \<Rightarrow> store \<Rightarrow> store" where
  "unify_all lib left_automata st =
     foldl (\<lambda>st a. st(a := unify_final lib (unify_initial lib (st a)))) st left_automata"

definition concatenated_left_side :: "'al NfaLib \<Rightarrow> addr list \<Rightarrow> Symbol \<Rightarrow> store \<Rightarrow> Nfa" where
  "concatenated_left_side lib left_automata epsilon st =
     foldl (\<lambda>concatenated a. concatenate lib concatenated (st a) epsilon)
       (st (hd left_automata)) (tl left_automata)"

definition apply_reduce :: "'al NfaLib \<Rightarrow> string \<Rightarrow> Nfa \<Rightarrow> Nfa" where
  "apply_reduce lib reduce_value product =
     (let p1 = (if reduce_value = ''forward'' \<or> reduce_value = ''bidirectional''
                then reduce lib product else product)
      in if reduce_value = ''backward'' \<or> reduce_value = ''bidirectional''
         then invert lib (reduce lib (invert lib p1)) else p1)"

definition afa_type_bits :: "StringDict \<Rightarrow> bool" where
  "afa_type_bits params =
     (case params ''afa-type'' of
        None \<Rightarrow> True
      | Some type_value \<Rightarrow> (if type_value = ''tracks'' then False else True))"

text \<open>Lines 384-396 and 448-460: alphabet, \<open>\<epsilon>\<close>, and the trimmed product.\<close>

definition equation_alphabet :: "'al NfaLib \<Rightarrow> addr list \<Rightarrow> addr \<Rightarrow> store \<Rightarrow> Symbol \<times> 'al" where
  "equation_alphabet lib left_automata right_automaton st =
     get_next_value lib
       (add_symbols_from lib (from_nfas lib (map st left_automata)) (st right_automaton))"

definition product_pres_eps_trans :: "'al NfaLib \<Rightarrow> addr list \<Rightarrow> addr \<Rightarrow> store \<Rightarrow> Nfa" where
  "product_pres_eps_trans lib left_automata right_automaton st =
     (let epsilon = fst (equation_alphabet lib left_automata right_automaton st) in
      trim lib (intersection lib (concatenated_left_side lib left_automata epsilon st)
                  (st right_automaton) epsilon))"

text \<open>Everything after the unification loop, common to both overloads.\<close>

definition equation_body ::
  "'al NfaLib \<Rightarrow> addr list \<Rightarrow> addr \<Rightarrow> nat list list \<Rightarrow> bool \<Rightarrow> string \<Rightarrow> StringDict \<Rightarrow> store
     \<Rightarrow> error + NoodleSequence \<times> string" where
  "equation_body lib left_automata right_automaton variableLocations include_empty
       reduce_value params st =
     (if left_automata = [] \<or> is_lang_empty lib (st right_automaton) then Inr ([], [])
      else (let (epsilon, alphabet) = equation_alphabet lib left_automata right_automaton st;
                product = product_pres_eps_trans lib left_automata right_automaton st
            in if is_lang_empty lib product then Inr ([], [])
               else noodlify lib (apply_reduce lib reduce_value product) epsilon
                      variableLocations alphabet include_empty (afa_type_bits params)))"

text \<open>
  The overload over \<^verbatim>\<open>AutRefSequence\<close> (lines 371-422).  Without the key \<^verbatim>\<open>reduce\<close> no
  reduction is applied, which is what the empty value does in \<open>apply_reduce\<close>.
\<close>

definition noodlify_for_equation_ref ::
  "'al NfaLib \<Rightarrow> addr list \<Rightarrow> addr \<Rightarrow> nat list list \<Rightarrow> bool \<Rightarrow> StringDict \<Rightarrow> store
     \<Rightarrow> (error + NoodleSequence \<times> string) \<times> store" where
  "noodlify_for_equation_ref lib left_automata right_automaton variableLocations include_empty
       params st =
     (let st' = unify_all lib left_automata st;
          reduce_value = (case params ''reduce'' of None \<Rightarrow> [] | Some v \<Rightarrow> v)
      in (equation_body lib left_automata right_automaton variableLocations include_empty
            reduce_value params st', st'))"

text \<open>The overload over \<^verbatim>\<open>AutPtrSequence\<close> (lines 424-485).\<close>

definition noodlify_for_equation_ptr ::
  "'al NfaLib \<Rightarrow> addr list \<Rightarrow> addr \<Rightarrow> nat list list \<Rightarrow> bool \<Rightarrow> StringDict \<Rightarrow> store
     \<Rightarrow> (error + NoodleSequence \<times> string) \<times> store" where
  "noodlify_for_equation_ptr lib left_automata right_automaton variableLocations include_empty
       params st =
     (let reduce_value = (case params ''reduce'' of None \<Rightarrow> [] | Some v \<Rightarrow> v);
          st' = (if reduce_value \<noteq> [] \<and>
                    (reduce_value = ''forward'' \<or> reduce_value = ''backward''
                     \<or> reduce_value = ''bidirectional'')
                 then unify_all lib left_automata st else st)
      in (equation_body lib left_automata right_automaton variableLocations include_empty
            reduce_value params st', st'))"

section \<open>Notions used to state the properties\<close>

text \<open>
  \<open>depth_transitions\<close> lists \<^verbatim>\<open>epsilon_depths.at(d)\<close> for \<open>d = 0, \<dots>, D - 1\<close>, where \<open>D\<close> is the
  number of entries; \<open>dense_depths\<close> says that the keys are exactly these depths.
\<close>

definition depth_transitions :: "(nat \<times> Trans list) list \<Rightarrow> Trans list list" where
  "depth_transitions epsilon_depths =
     map (\<lambda>d. the (map_of epsilon_depths d)) [0..<length epsilon_depths]"

definition dense_depths :: "(nat \<times> Trans list) list \<Rightarrow> bool" where
  "dense_depths epsilon_depths \<longleftrightarrow>
     distinct (map fst epsilon_depths) \<and>
     set (map fst epsilon_depths) = {0..<length epsilon_depths}"

text \<open>The number of combinations \<open>\<Prod>\<^sub>d k\<^sub>d\<close>, without the bound of \<^verbatim>\<open>size_t\<close>.\<close>

definition num_combinations :: "(nat \<times> Trans list) list \<Rightarrow> nat" where
  "num_combinations epsilon_depths = prod_list (map length (depth_transitions epsilon_depths))"

text \<open>
  Mixed-radix decomposition of an index for the radices \<open>k\<^sub>0, k\<^sub>1, \<dots>\<close>: the digit at a
  depth is the index modulo the radix, and the index is then divided by the radix.
\<close>

fun mixed_radix :: "nat list \<Rightarrow> nat \<Rightarrow> nat list" where
  "mixed_radix [] index = []"
| "mixed_radix (k # ks) index = (index mod k) # mixed_radix ks (index div k)"

text \<open>The \<open>\<epsilon>\<close>-transitions of the combination \<open>index\<close>, one per depth.\<close>

definition combination :: "(nat \<times> Trans list) list \<Rightarrow> nat \<Rightarrow> Trans list" where
  "combination epsilon_depths index =
     map2 (\<lambda>ts digit. ts ! digit) (depth_transitions epsilon_depths)
       (mixed_radix (map length (depth_transitions epsilon_depths)) index)"

text \<open>
  The registry keys looked up for a combination: \<open>(\<bottom>, t\<^sub>0.src)\<close>, then
  \<open>(t\<^sub>d.tgt, t\<^sub>d\<^sub>+\<^sub>1.src)\<close>, then \<open>(t\<^sub>D\<^sub>-\<^sub>1.tgt, \<bottom>)\<close>.
\<close>

definition noodle_keys :: "State \<Rightarrow> Trans list \<Rightarrow> (State \<times> State) list" where
  "noodle_keys unused_state ts =
     (unused_state, src (hd ts))
     # map (\<lambda>p. (tgt (fst p), src (snd p))) (zip ts (tl ts))
     @ [(tgt (last ts), unused_state)]"

definition all_lookups_succeed :: "SegmentMap \<Rightarrow> State \<Rightarrow> Trans list \<Rightarrow> bool" where
  "all_lookups_succeed m unused_state ts = list_all (\<lambda>key. m key \<noteq> None) (noodle_keys unused_state ts)"

text \<open>The pinned copies of the three kinds of segment, and the test for storing one.\<close>

definition stored :: "'al NfaLib \<Rightarrow> bool \<Rightarrow> Nfa \<Rightarrow> bool" where
  "stored lib include_empty segment \<longleftrightarrow>
     get_num_of_states lib (trim lib segment) > 0 \<or> include_empty"

definition first_entries :: "'al NfaLib \<Rightarrow> State \<Rightarrow> Nfa \<Rightarrow> ((State \<times> State) \<times> Nfa) list" where
  "first_entries lib unused_state seg =
     map (\<lambda>f. ((unused_state, f), seg\<lparr>finalstates := [f]\<rparr>)) (finalstates seg)"

definition last_entries :: "'al NfaLib \<Rightarrow> State \<Rightarrow> Nfa \<Rightarrow> ((State \<times> State) \<times> Nfa) list" where
  "last_entries lib unused_state seg =
     map (\<lambda>i. ((i, unused_state), seg\<lparr>initialstates := [i]\<rparr>)) (initialstates seg)"

definition middle_entries :: "'al NfaLib \<Rightarrow> Nfa \<Rightarrow> ((State \<times> State) \<times> Nfa) list" where
  "middle_entries lib seg =
     concat (map (\<lambda>i. map (\<lambda>f. ((i, f), seg\<lparr>initialstates := [i], finalstates := [f]\<rparr>))
                        (finalstates seg))
               (initialstates seg))"

text \<open>
  All (key, pinned copy) pairs that the construction pass visits, in its order: the
  first segment, the segments in between, the last segment.
\<close>

definition pinned_copies :: "'al NfaLib \<Rightarrow> State \<Rightarrow> Nfa list \<Rightarrow> ((State \<times> State) \<times> Nfa) list" where
  "pinned_copies lib unused_state segments =
     first_entries lib unused_state (hd segments)
     @ concat (map (middle_entries lib) (butlast (tl segments)))
     @ last_entries lib unused_state (last segments)"

text \<open>What the pass stores of a list of pinned copies: the trimmed copies that pass the test.\<close>

definition kept ::
  "'al NfaLib \<Rightarrow> bool \<Rightarrow> ((State \<times> State) \<times> Nfa) list \<Rightarrow> ((State \<times> State) \<times> Nfa) list" where
  "kept lib include_empty entries =
     map (\<lambda>e. (fst e, trim lib (snd e))) (filter (\<lambda>e. stored lib include_empty (snd e)) entries)"

text \<open>
  The noodles of the combinations in \<open>indices\<close> whose lookups all succeed, in the order of
  \<open>indices\<close>; \<open>comb\<close> gives the \<open>\<epsilon>\<close>-transitions of a combination.
\<close>

definition enumerated ::
  "SegmentMap \<Rightarrow> State \<Rightarrow> (nat \<Rightarrow> Trans list) \<Rightarrow> nat list \<Rightarrow> NoodleSequence" where
  "enumerated m unused_state comb indices =
     map (\<lambda>index. map (\<lambda>key. the (m key)) (noodle_keys unused_state (comb index)))
       (filter (\<lambda>index. all_lookups_succeed m unused_state (comb index)) indices)"

text \<open>
  Invariant I1 of the segmentation: \<open>D\<close> depths, with keys \<open>0, \<dots>, D - 1\<close>, for \<open>D + 1\<close>
  segments.
\<close>

definition segmentation_invariant :: "Segmentation \<Rightarrow> bool" where
  "segmentation_invariant sg \<longleftrightarrow>
     dense_depths (get_epsilon_depths sg) \<and>
     length (get_epsilon_depths sg) + 1 = length (get_segments_raw sg)"

text \<open>A reduction is requested when the key \<^verbatim>\<open>reduce\<close> holds one of the three directions.\<close>

definition reduction_requested :: "StringDict \<Rightarrow> bool" where
  "reduction_requested params \<longleftrightarrow>
     params ''reduce'' = Some ''forward'' \<or> params ''reduce'' = Some ''backward''
     \<or> params ''reduce'' = Some ''bidirectional''"

text \<open>
  Unification of the left-hand automata, occurrence by occurrence: an automaton that the
  sequence names \<open>n\<close> times has gone \<open>n\<close> times through \<^verbatim>\<open>unify_initial\<close> followed by
  \<^verbatim>\<open>unify_final\<close>; an automaton that the sequence does not name is as it was.
\<close>

definition unified_store :: "'al NfaLib \<Rightarrow> addr list \<Rightarrow> store \<Rightarrow> store" where
  "unified_store lib left_automata st =
     (\<lambda>a. ((\<lambda>A. unify_final lib (unify_initial lib A)) ^^ count_list left_automata a) (st a))"

text \<open>
  The table \<^verbatim>\<open>initStateToPreviousNonFinalStates\<close> after the loop of lines 140-154, as a
  recursion over the segments after the first; \<open>prev\<close> is the reachable set of the segment
  before.
\<close>

fun prev_map ::
  "'al NfaLib \<Rightarrow> State list \<Rightarrow> Nfa list \<Rightarrow> (State \<times> State list) list
     \<Rightarrow> (State \<times> State list) list" where
  "prev_map lib prev [] m = m"
| "prev_map lib prev (seg # rest) m =
     prev_map lib (get_reachable_states lib seg) rest
       (foldl (\<lambda>m init. AList.update init prev m) m (initialstates seg))"

text \<open>
  \<open>i\<close> is an initial state of segment \<open>j \<ge> 1\<close> and of no later segment: the segment before
  \<open>i\<close>'s segment is \<open>j - 1\<close>.
\<close>

definition previous_segment_reachable :: "'al NfaLib \<Rightarrow> Nfa list \<Rightarrow> State \<Rightarrow> nat \<Rightarrow> bool" where
  "previous_segment_reachable lib segments i j \<longleftrightarrow>
     0 < j \<and> j < length segments \<and> i \<in> set (initialstates (segments ! j)) \<and>
     list_all (\<lambda>j'. i \<notin> set (initialstates (segments ! j'))) [Suc j..<length segments]"

text \<open>The sources of the \<open>\<epsilon>\<close>-transitions into a state, in the order of the removal loop.\<close>

definition epsilon_sources :: "(nat \<times> Trans list) list \<Rightarrow> State \<Rightarrow> State list" where
  "epsilon_sources epsilon_depths i =
     map src (filter (\<lambda>t. tgt t = i) (concat (map snd epsilon_depths)))"

text \<open>
  The set that the specification subtracts instead:
  \<open>{tgt | (src, \<epsilon>, tgt) \<in> epsilonDepths, tgt = i}\<close>.
\<close>

definition spec_epsilon_targets :: "(nat \<times> Trans list) list \<Rightarrow> State \<Rightarrow> State list" where
  "spec_epsilon_targets epsilon_depths i =
     map tgt (filter (\<lambda>t. tgt t = i) (concat (map snd epsilon_depths)))"

text \<open>
  The conjunct of the \<open>%Final\<close> formula for an entry \<open>(i, P(i))\<close> of the table, in the
  specification's wording \<open>(\<not>q\<^sub>i' | (\<not>q\<^sub>s\<^sub>1 & \<not>q\<^sub>s\<^sub>2 & \<dots>))\<close>, joined to the formula by \<open>&\<close>.
\<close>

definition entry_conjunct :: "State \<times> State list \<Rightarrow> string" where
  "entry_conjunct elem =
     '' & (!q'' @ show_nat (fst elem) @ prime @ '' | (''
     @ print_separated '' & '' (\<lambda>s. ''!q'' @ show_nat s) True (snd elem) @ ''))''"

text \<open>
  The bit atoms of the specification's wording: big-endian, the first atom
  \<open>a\<^sub>v\<^sub>\<cdot>\<^sub>n\<close> carries the most significant of the \<open>n\<close> bits.
\<close>

definition spec_big_endian_atoms :: "nat \<Rightarrow> Symbol \<Rightarrow> nat \<Rightarrow> string" where
  "spec_big_endian_atoms neededBits remappedSymbol trackNum =
     print_separated '' & ''
       (\<lambda>i. (if bit remappedSymbol (neededBits - 1 - i) then [] else ''!'')
             @ ''a'' @ show_nat (trackNum * neededBits + i))
       True [0..<neededBits]"

text \<open>What the code prints: the atom \<open>a\<^sub>v\<^sub>\<cdot>\<^sub>n\<^sub>+\<^sub>i\<close> carries bit \<open>i\<close>, least significant first.\<close>

definition little_endian_atoms :: "nat \<Rightarrow> Symbol \<Rightarrow> nat \<Rightarrow> string" where
  "little_endian_atoms neededBits remappedSymbol trackNum =
     print_separated '' & ''
       (\<lambda>i. (if bit remappedSymbol i then [] else ''!'')
             @ ''a'' @ show_nat (trackNum * neededBits + i))
       True [0..<neededBits]"

text \<open>
  The successive calls of \<^verbatim>\<open>remapSymbol\<close> during one emission, each with its symbol and
  track; the table and the counter pass from one call to the next.
\<close>

fun remap_calls ::
  "bool \<Rightarrow> nat \<Rightarrow> (Symbol \<times> nat) list \<Rightarrow> RemapState \<Rightarrow> string list \<times> RemapState" where
  "remap_calls useBits neededBits [] st = ([], st)"
| "remap_calls useBits neededBits (call # calls) st =
     (let (out, st') = remapSymbol useBits neededBits (fst call) (snd call) st;
          (outs, st'') = remap_calls useBits neededBits calls st'
      in (out # outs, st''))"

text \<open>The symbols in the order of their first occurrence, and the rank of a symbol there.\<close>

definition add_seen :: "Symbol list \<Rightarrow> Symbol \<Rightarrow> Symbol list" where
  "add_seen seen s = (if s \<in> set seen then seen else seen @ [s])"

definition first_seen :: "Symbol list \<Rightarrow> Symbol list" where
  "first_seen syms = foldl add_seen [] syms"

definition index_of :: "nat list \<Rightarrow> nat \<Rightarrow> nat" where
  "index_of xs x = length (takeWhile (\<lambda>y. y \<noteq> x) xs)"

text \<open>The table and the counter after the symbols of \<open>seen\<close> were met in this order.\<close>

definition remap_table :: "Symbol list \<Rightarrow> RemapState" where
  "remap_table seen =
     \<lparr> symbolRemapping = (\<lambda>s. if s \<in> set seen then Some (index_of seen s) else None),
       newSymbol = length seen \<rparr>"

text \<open>
  The text of the transition part of the printer (lines 262-297) for a given way \<open>enc\<close>
  of writing a symbol on a track: the same loops, without the table.
\<close>

definition render_tran :: "(Symbol \<Rightarrow> nat \<Rightarrow> string) \<Rightarrow> nat \<Rightarrow> TransSymbolStates \<Rightarrow> string" where
  "render_tran enc varNum tran =
     ''('' @ enc (symbol tran) varNum @ '' & (''
     @ print_separated '' | '' print_q True (states_to tran) @ ''))''"

definition render_state ::
  "'al NfaLib \<Rightarrow> (Symbol \<Rightarrow> nat \<Rightarrow> string) \<Rightarrow> nat \<Rightarrow> Nfa \<Rightarrow> State \<Rightarrow> string" where
  "render_state lib enc varNum varAut s =
     (if get_transitions_from lib varAut s = [] then []
      else print_q s @ '' ''
           @ print_separated '' | '' (render_tran enc varNum) True (get_transitions_from lib varAut s)
           @ endl)"

definition render_location ::
  "'al NfaLib \<Rightarrow> (Symbol \<Rightarrow> nat \<Rightarrow> string) \<Rightarrow> Nfa list \<Rightarrow> State list list \<Rightarrow> nat \<Rightarrow> nat \<Rightarrow> string" where
  "render_location lib enc segments reachable varNum varLoc =
     concat (map (render_state lib enc varNum (segments ! varLoc)) (reachable ! varLoc))"

definition render_transitions ::
  "'al NfaLib \<Rightarrow> (Symbol \<Rightarrow> nat \<Rightarrow> string) \<Rightarrow> Nfa list \<Rightarrow> State list list \<Rightarrow> nat list list \<Rightarrow> string" where
  "render_transitions lib enc segments reachable variableLocations =
     concat (map (\<lambda>varNum. concat (map (render_location lib enc segments reachable varNum)
                                     (variableLocations ! varNum)))
               [0..<length variableLocations])"

text \<open>The symbols handed to \<^verbatim>\<open>remapSymbol\<close> by these loops, in the order of the calls.\<close>

definition state_symbols :: "'al NfaLib \<Rightarrow> Nfa \<Rightarrow> State \<Rightarrow> Symbol list" where
  "state_symbols lib varAut s = map symbol (get_transitions_from lib varAut s)"

definition location_symbols :: "'al NfaLib \<Rightarrow> Nfa list \<Rightarrow> State list list \<Rightarrow> nat \<Rightarrow> Symbol list" where
  "location_symbols lib segments reachable varLoc =
     concat (map (state_symbols lib (segments ! varLoc)) (reachable ! varLoc))"

definition emission_symbols ::
  "'al NfaLib \<Rightarrow> Nfa list \<Rightarrow> State list list \<Rightarrow> nat list list \<Rightarrow> Symbol list" where
  "emission_symbols lib segments reachable variableLocations =
     concat (map (\<lambda>varNum. concat (map (location_symbols lib segments reachable)
                                     (variableLocations ! varNum)))
               [0..<length variableLocations])"

text \<open>The text for a symbol on a track when the symbols \<open>seen\<close> were met in this order.\<close>

definition rank_encoding :: "bool \<Rightarrow> nat \<Rightarrow> Symbol list \<Rightarrow> Symbol \<Rightarrow> nat \<Rightarrow> string" where
  "rank_encoding useBits neededBits seen s trackNum =
     encode_symbol useBits neededBits (index_of seen s) trackNum"

text \<open>\<open>final\<close> starts with \<open>seen\<close>.\<close>

definition extends :: "Symbol list \<Rightarrow> Symbol list \<Rightarrow> bool" where
  "extends final seen \<longleftrightarrow> take (length seen) final = seen"

section \<open>An instance of the NFA library\<close>

text \<open>
  The theorems below hold for every library.  To run the model on concrete automata
  (and to show that the hypotheses of the theorems can be met) the library is
  instantiated by simple list-based algorithms that follow the contracts of the
  library: states are \<open>0, \<dots>, n - 1\<close> where \<open>n\<close> is the length of the transition relation,
  and the alphabet is the list of its symbols with the next free value.
\<close>

definition demo_post :: "Nfa \<Rightarrow> State \<Rightarrow> TransSymbolStates list" where
  "demo_post A s = (if s < length (transitionrelation A) then transitionrelation A ! s else [])"

definition demo_successors :: "Nfa \<Rightarrow> State \<Rightarrow> State list" where
  "demo_successors A s = concat (map states_to (demo_post A s))"

text \<open>Closure of a set of states under a successor function, in at most \<open>n\<close> rounds.\<close>

fun demo_closure :: "(State \<Rightarrow> State list) \<Rightarrow> nat \<Rightarrow> State list \<Rightarrow> State list" where
  "demo_closure succs 0 S = S"
| "demo_closure succs (Suc n) S =
     demo_closure succs n (sort (remdups (S @ concat (map succs S))))"

text \<open>Modelled from the spec: the reachable-state set, from the initial states.\<close>

definition demo_reachable :: "Nfa \<Rightarrow> State list" where
  "demo_reachable A =
     demo_closure (demo_successors A) (length (transitionrelation A))
       (sort (remdups (initialstates A)))"

definition demo_predecessors :: "Nfa \<Rightarrow> State \<Rightarrow> State list" where
  "demo_predecessors A t =
     filter (\<lambda>s. t \<in> set (demo_successors A s)) [0..<length (transitionrelation A)]"

definition demo_coreachable :: "Nfa \<Rightarrow> State list" where
  "demo_coreachable A =
     demo_closure (demo_predecessors A) (length (transitionrelation A))
       (sort (remdups (finalstates A)))"

definition demo_keep :: "State list \<Rightarrow> State list \<Rightarrow> State list" where
  "demo_keep useful S = map (index_of useful) (filter (\<lambda>s. s \<in> set useful) S)"

definition demo_restrict :: "Nfa \<Rightarrow> State list \<Rightarrow> Nfa" where
  "demo_restrict A useful =
     \<lparr> transitionrelation =
         map (\<lambda>s. filter (\<lambda>t. states_to t \<noteq> [])
                    (map (\<lambda>t. t\<lparr>states_to := demo_keep useful (states_to t)\<rparr>) (demo_post A s)))
           useful,
       initialstates = demo_keep useful (initialstates A),
       finalstates = demo_keep useful (finalstates A) \<rparr>"

text \<open>
  Modelled from the spec: \<^verbatim>\<open>trim\<close> removes the states that are not on a path from an
  initial to a final state; the remaining states are renumbered from \<open>0\<close>.
\<close>

definition demo_trim :: "Nfa \<Rightarrow> Nfa" where
  "demo_trim A =
     demo_restrict A (filter (\<lambda>s. s \<in> set (demo_coreachable A)) (demo_reachable A))"

text \<open>
  Modelled from the spec: the layered exploration of the segmentation.  A segment is the
  automaton without its \<open>\<epsilon>\<close>-transitions, started in the targets of the previous depth;
  its final states are the sources of the \<open>\<epsilon>\<close>-transitions of its depth (the ambient
  final states in the last segment).  More layers than states is an \<open>\<epsilon>\<close>-cycle.
\<close>

definition demo_segment :: "Nfa \<Rightarrow> Symbol \<Rightarrow> State list \<Rightarrow> Nfa" where
  "demo_segment aut epsilon inits =
     aut\<lparr> transitionrelation :=
            map (filter (\<lambda>t. symbol t \<noteq> epsilon)) (transitionrelation aut),
          initialstates := inits \<rparr>"

definition demo_epsilon_from :: "Nfa \<Rightarrow> Symbol \<Rightarrow> State list \<Rightarrow> Trans list" where
  "demo_epsilon_from aut epsilon states =
     concat (map (\<lambda>s. concat (map (\<lambda>t. map (\<lambda>r. \<lparr>src = s, symb = epsilon, tgt = r\<rparr>)
                                          (states_to t))
                         (filter (\<lambda>t. symbol t = epsilon) (demo_post aut s))))
               states)"

fun demo_layers ::
  "Nfa \<Rightarrow> Symbol \<Rightarrow> nat \<Rightarrow> Nfa \<Rightarrow> Trans list \<Rightarrow> (Nfa list \<times> Trans list list) option" where
  "demo_layers aut epsilon fuel seg [] = Some ([seg], [])"
| "demo_layers aut epsilon 0 seg (t # ts) = None"
| "demo_layers aut epsilon (Suc fuel) seg (t # ts) =
     (case demo_layers aut epsilon fuel
             (demo_segment aut epsilon (sort (remdups (map tgt (t # ts)))))
             (demo_epsilon_from aut epsilon
                (demo_reachable (demo_segment aut epsilon (sort (remdups (map tgt (t # ts))))))) of
        None \<Rightarrow> None
      | Some (segs, depths) \<Rightarrow>
          Some (seg\<lparr>finalstates := sort (remdups (map src (t # ts)))\<rparr> # segs,
                (t # ts) # depths))"

definition demo_segmentation :: "Nfa \<Rightarrow> Symbol \<Rightarrow> error + Segmentation" where
  "demo_segmentation aut epsilon =
     (case demo_layers aut epsilon (length (transitionrelation aut))
             (demo_segment aut epsilon (initialstates aut))
             (demo_epsilon_from aut epsilon
                (demo_reachable (demo_segment aut epsilon (initialstates aut)))) of
        None \<Rightarrow> Inl MalformedSegmentation
      | Some (segs, depths) \<Rightarrow>
          Inr \<lparr> get_segments_raw = segs,
                get_epsilon_depths = zip [0..<length depths] depths \<rparr>)"

text \<open>
  Modelled from the spec: \<^verbatim>\<open>unify_initial\<close> collapses several initial states into a new
  one that takes over their outgoing transitions; \<^verbatim>\<open>unify_final\<close> collapses several final
  states into a new one that takes over their incoming transitions.
\<close>

definition demo_unify_initial :: "Nfa \<Rightarrow> Nfa" where
  "demo_unify_initial A =
     (if length (initialstates A) \<le> 1 then A
      else \<lparr> transitionrelation =
               transitionrelation A @ [concat (map (demo_post A) (initialstates A))],
             initialstates = [length (transitionrelation A)],
             finalstates =
               finalstates A
               @ (if \<exists>s \<in> set (initialstates A). s \<in> set (finalstates A)
                  then [length (transitionrelation A)] else []) \<rparr>)"

definition demo_unify_final :: "Nfa \<Rightarrow> Nfa" where
  "demo_unify_final A =
     (if length (finalstates A) \<le> 1 then A
      else \<lparr> transitionrelation =
               map (map (\<lambda>t. if \<exists>r \<in> set (states_to t). r \<in> set (finalstates A)
                              then t\<lparr>states_to := states_to t @ [length (transitionrelation A)]\<rparr>
                              else t))
                 (transitionrelation A)
               @ [[]],
             initialstates =
               initialstates A
               @ (if \<exists>s \<in> set (initialstates A). s \<in> set (finalstates A)
                  then [length (transitionrelation A)] else []),
             finalstates = [length (transitionrelation A)] \<rparr>)"

text \<open>
  Modelled from the spec: \<^verbatim>\<open>concatenate\<close> puts the second automaton after the first and
  adds \<open>\<epsilon>\<close>-transitions from the final states of the first to the initial states of the
  second.
\<close>

definition demo_shift :: "nat \<Rightarrow> State list \<Rightarrow> State list" where
  "demo_shift n S = map (\<lambda>s. s + n) S"

definition demo_concatenate :: "Nfa \<Rightarrow> Nfa \<Rightarrow> Symbol \<Rightarrow> Nfa" where
  "demo_concatenate A B epsilon =
     \<lparr> transitionrelation =
         map (\<lambda>s. demo_post A s
                   @ (if s \<in> set (finalstates A) \<and> initialstates B \<noteq> []
                      then [\<lparr>symbol = epsilon,
                             states_to = demo_shift (length (transitionrelation A))
                                           (initialstates B)\<rparr>]
                      else []))
           [0..<length (transitionrelation A)]
         @ map (map (\<lambda>t. t\<lparr>states_to :=
                              demo_shift (length (transitionrelation A)) (states_to t)\<rparr>))
             (transitionrelation B),
       initialstates = initialstates A,
       finalstates = demo_shift (length (transitionrelation A)) (finalstates B) \<rparr>"

text \<open>
  Modelled from the spec: \<^verbatim>\<open>intersection\<close> is the product construction in which an
  \<open>\<epsilon>\<close>-transition of the left automaton leaves the right state where it is.  The pair
  \<open>(p, q)\<close> is the state \<open>p * |B| + q\<close>.
\<close>

definition demo_pairs :: "nat \<Rightarrow> State list \<Rightarrow> State list \<Rightarrow> State list" where
  "demo_pairs nB ps qs = concat (map (\<lambda>p. map (\<lambda>q. p * nB + q) qs) ps)"

definition demo_product_post :: "Nfa \<Rightarrow> Nfa \<Rightarrow> Symbol \<Rightarrow> State \<Rightarrow> State \<Rightarrow> TransSymbolStates list" where
  "demo_product_post A B epsilon p q =
     concat (map (\<lambda>t.
         if symbol t = epsilon
         then [\<lparr>symbol = epsilon,
                states_to = demo_pairs (length (transitionrelation B)) (states_to t) [q]\<rparr>]
         else map (\<lambda>u. \<lparr>symbol = symbol t,
                         states_to = demo_pairs (length (transitionrelation B))
                                       (states_to t) (states_to u)\<rparr>)
                (filter (\<lambda>u. symbol u = symbol t) (demo_post B q)))
       (demo_post A p))"

definition demo_intersection :: "Nfa \<Rightarrow> Nfa \<Rightarrow> Symbol \<Rightarrow> Nfa" where
  "demo_intersection A B epsilon =
     \<lparr> transitionrelation =
         concat (map (\<lambda>p. map (demo_product_post A B epsilon p)
                            [0..<length (transitionrelation B)])
                   [0..<length (transitionrelation A)]),
       initialstates =
         demo_pairs (length (transitionrelation B)) (initialstates A) (initialstates B),
       finalstates =
         demo_pairs (length (transitionrelation B)) (finalstates A) (finalstates B) \<rparr>"

definition demo_symbols :: "Nfa \<Rightarrow> Symbol list" where
  "demo_symbols A = concat (map (map symbol) (transitionrelation A))"

text \<open>
  Modelled from the spec: the alphabet holds its symbols and the next free value;
  \<^verbatim>\<open>get_next_value\<close> returns a value above every symbol in use and advances.
\<close>

definition demo_add_symbols :: "Symbol list \<times> Symbol \<Rightarrow> Symbol list \<Rightarrow> Symbol list \<times> Symbol" where
  "demo_add_symbols al syms =
     (sort (remdups (fst al @ syms)), fold max (map Suc syms) (snd al))"

text \<open>
  The order of iteration is that of an \<^verbatim>\<open>unordered_map\<close> of libstdc++ whose keys lie in
  different buckets: a new entry is linked at the head of the list of all entries, so the
  entries are visited from the newest to the oldest.
\<close>

definition demo_lib :: "(Symbol list \<times> Symbol) NfaLib" where
  "demo_lib =
     \<lparr> make_segmentation = demo_segmentation,
       trim = demo_trim,
       get_num_of_states = (\<lambda>A. length (transitionrelation A)),
       get_reachable_states = demo_reachable,
       get_transitions_from = demo_post,
       get_symbols = fst,
       unify_initial = demo_unify_initial,
       unify_final = demo_unify_final,
       is_lang_empty = (\<lambda>A. length (transitionrelation (demo_trim A)) = 0),
       from_nfas = (\<lambda>As. demo_add_symbols ([], 0) (concat (map demo_symbols As))),
       add_symbols_from = (\<lambda>al A. demo_add_symbols al (demo_symbols A)),
       get_next_value = (\<lambda>al. (snd al, (fst al, Suc (snd al)))),
       concatenate = demo_concatenate,
       intersection = demo_intersection,
       reduce = (\<lambda>A. A),
       invert = (\<lambda>A. A),
       unordered_map_order = rev \<rparr>"

subsection \<open>Example inputs\<close>

text \<open>
  Symbols: \<open>a = 0\<close>, \<open>b = 1\<close>, \<open>\<epsilon> = 2\<close>.  Three segments:
  \<open>0 -a\<rightarrow> 1\<close>, \<open>0 -b\<rightarrow> 2\<close>; \<open>1 -\<epsilon>\<rightarrow> 3\<close>, \<open>2 -\<epsilon>\<rightarrow> 4\<close>; \<open>3 -a\<rightarrow> 5\<close>, \<open>4 -b\<rightarrow> 6\<close>;
  \<open>5 -\<epsilon>\<rightarrow> 7\<close>, \<open>6 -\<epsilon>\<rightarrow> 7\<close>; \<open>7 -a\<rightarrow> 8\<close>; state \<open>0\<close> is initial, state \<open>8\<close> final.
\<close>

definition demo_aut :: Nfa where
  "demo_aut =
     \<lparr> transitionrelation =
         [ [\<lparr>symbol = 0, states_to = [1]\<rparr>, \<lparr>symbol = 1, states_to = [2]\<rparr>],
           [\<lparr>symbol = 2, states_to = [3]\<rparr>],
           [\<lparr>symbol = 2, states_to = [4]\<rparr>],
           [\<lparr>symbol = 0, states_to = [5]\<rparr>],
           [\<lparr>symbol = 1, states_to = [6]\<rparr>],
           [\<lparr>symbol = 2, states_to = [7]\<rparr>],
           [\<lparr>symbol = 2, states_to = [7]\<rparr>],
           [\<lparr>symbol = 0, states_to = [8]\<rparr>],
           [] ],
       initialstates = [0],
       finalstates = [8] \<rparr>"

text \<open>The automata of an equation: \<open>X\<close> and \<open>Y\<close> accept \<open>a\<close> and \<open>b\<close>; the right side accepts \<open>aa\<close>.\<close>

definition demo_var :: Nfa where
  "demo_var =
     \<lparr> transitionrelation =
         [ [\<lparr>symbol = 0, states_to = [1]\<rparr>, \<lparr>symbol = 1, states_to = [1]\<rparr>], [] ],
       initialstates = [0],
       finalstates = [1] \<rparr>"

definition demo_rhs :: Nfa where
  "demo_rhs =
     \<lparr> transitionrelation =
         [ [\<lparr>symbol = 0, states_to = [1]\<rparr>], [\<lparr>symbol = 0, states_to = [2]\<rparr>], [] ],
       initialstates = [0],
       finalstates = [2] \<rparr>"

text \<open>An automaton without final states: its language is empty.\<close>

definition demo_empty :: Nfa where
  "demo_empty =
     \<lparr> transitionrelation = [ [\<lparr>symbol = 0, states_to = [0]\<rparr>] ],
       initialstates = [0],
       finalstates = [] \<rparr>"

text \<open>An automaton with two initial states: \<open>0 -a\<rightarrow> 2\<close>, \<open>1 -b\<rightarrow> 2\<close>, state \<open>2\<close> final.\<close>

definition demo_two :: Nfa where
  "demo_two =
     \<lparr> transitionrelation =
         [ [\<lparr>symbol = 0, states_to = [2]\<rparr>], [\<lparr>symbol = 1, states_to = [2]\<rparr>], [] ],
       initialstates = [0, 1],
       finalstates = [2] \<rparr>"

text \<open>
  The store: \<open>X\<close> at address 0, \<open>Y\<close> at 1, the right side at 2, the empty automaton at 3,
  the automaton with two initial states elsewhere.
\<close>

definition demo_store :: store where
  "demo_store = (\<lambda>a. if a = 0 then demo_var else if a = 1 then demo_var
                      else if a = 2 then demo_rhs else if a = 3 then demo_empty
                      else demo_two)"

text \<open>The segmentation of \<open>demo_aut\<close> and the two segment automata of its noodles.\<close>

definition demo_sg :: Segmentation where
  "demo_sg =
     \<lparr> get_segments_raw =
         [ demo_segment demo_aut 2 [0] \<lparr>finalstates := [1, 2]\<rparr>,
           demo_segment demo_aut 2 [3, 4] \<lparr>finalstates := [5, 6]\<rparr>,
           demo_segment demo_aut 2 [7] ],
       get_epsilon_depths =
         [ (0, [\<lparr>src = 1, symb = 2, tgt = 3\<rparr>, \<lparr>src = 2, symb = 2, tgt = 4\<rparr>]),
           (1, [\<lparr>src = 5, symb = 2, tgt = 7\<rparr>, \<lparr>src = 6, symb = 2, tgt = 7\<rparr>]) ] \<rparr>"

definition demo_noodle_a :: Nfa where
  "demo_noodle_a =
     \<lparr> transitionrelation = [[\<lparr>symbol = 0, states_to = [1]\<rparr>], []],
       initialstates = [0], finalstates = [1] \<rparr>"

definition demo_noodle_b :: Nfa where
  "demo_noodle_b =
     \<lparr> transitionrelation = [[\<lparr>symbol = 1, states_to = [1]\<rparr>], []],
       initialstates = [0], finalstates = [1] \<rparr>"

text \<open>The text that \<^verbatim>\<open>noodlify\<close> writes for \<open>demo_aut\<close> with the bit encoding.\<close>

definition demo_afa_bits :: string where
  "demo_afa_bits =
     ''@AFA-bits'' @ endl
     @ ''%Initial (q0) & ((q3 & q3'' @ prime @ '' & q7 & q7'' @ prime
       @ '') | (q4 & q4'' @ prime @ '' & q7 & q7'' @ prime @ ''))'' @ endl
     @ ''%Final (!q7) & (!q7'' @ prime @ '' | (!q3 & !q4)) & (!q4'' @ prime
       @ '' | (!q0 & !q1)) & (!q3'' @ prime @ '' | (!q0 & !q2))'' @ endl
     @ ''q0 (!a0 & (q1)) | (a0 & (q2))'' @ endl
     @ ''q3 (!a1 & (q5))'' @ endl
     @ ''q4 (a1 & (q6))'' @ endl
     @ ''q7 (!a2 & (q8))'' @ endl
     @ ''q3'' @ prime @ '' q3'' @ prime @ endl
     @ ''q4'' @ prime @ '' q4'' @ prime @ endl
     @ ''q7'' @ prime @ '' q7'' @ prime @ endl
     @ ''#AFA was fully printed'' @ endl"

text \<open>The locals of the printer after the loop over the segments of \<open>demo_aut\<close>.\<close>

definition demo_init :: NoodleInit where
  "demo_init =
     \<lparr> segmentReachableStates = [[0, 1, 2], [3, 4, 5, 6], [7, 8]],
       initialStatesNoodles = [[3, 7], [4, 7]],
       allSegmentsInitialStates = [3, 4, 7],
       initStateToPreviousNonFinalStates = [(3, [0, 1, 2]), (4, [0, 1, 2]), (7, [3, 4, 5, 6])] \<rparr>"

text \<open>
  The depths of a chain of 65 segments: segment \<open>d\<close> is \<open>3d -a\<rightarrow> 3d + 1\<close>,
  \<open>3d -b\<rightarrow> 3d + 2\<close>, and both \<open>3d + 1\<close> and \<open>3d + 2\<close> have an \<open>\<epsilon>\<close>-transition to
  \<open>3d + 3\<close>, the initial state of the next segment.  There are 64 depths with two
  \<open>\<epsilon>\<close>-transitions each.
\<close>

definition demo_chain_depths :: "(nat \<times> Trans list) list" where
  "demo_chain_depths =
     map (\<lambda>d. (d, [\<lparr>src = 3 * d + 1, symb = 2, tgt = 3 * d + 3\<rparr>,
                    \<lparr>src = 3 * d + 2, symb = 2, tgt = 3 * d + 3\<rparr>]))
       [0..<64]"

section \<open>Facts about the example inputs\<close>

lemma demo_segmentation_var:
  "make_segmentation demo_lib demo_var 2
     = Inr \<lparr>get_segments_raw = [demo_var], get_epsilon_depths = []\<rparr>"
  by code_simp

lemma demo_trim_var: "trim demo_lib demo_var = demo_var"
  by code_simp

lemma demo_num_of_states_var: "get_num_of_states demo_lib demo_var = 2"
  by code_simp

lemma demo_empty_product:
  "is_lang_empty demo_lib (product_pres_eps_trans demo_lib [0, 3] 2 demo_store)"
  by code_simp

lemma demo_unify_all: "unify_all demo_lib [0, 3] demo_store = demo_store"
  by (rule ext) (simp add: unify_all_def demo_lib_def demo_store_def demo_var_def demo_empty_def
        demo_unify_initial_def demo_unify_final_def)

lemma demo_segmentation_aut: "make_segmentation demo_lib demo_aut 2 = Inr demo_sg"
  by code_simp

lemma demo_num_of_states_aut: "get_num_of_states demo_lib demo_aut = 9"
  by code_simp

lemma demo_invariant: "segmentation_invariant demo_sg"
  by code_simp

lemma demo_num_combinations: "num_combinations (get_epsilon_depths demo_sg) = 4"
  by code_simp

lemma demo_registry_entries:
  "kept demo_lib False (pinned_copies demo_lib 9 (get_segments_raw demo_sg))
     = [((9, 1), demo_noodle_a), ((9, 2), demo_noodle_b),
        ((3, 5), demo_noodle_a), ((4, 6), demo_noodle_b),
        ((7, 9), demo_noodle_a)]"
  by code_simp

lemma demo_enumerated:
  "enumerated
     (map_of (rev [((9, 1), demo_noodle_a), ((9, 2), demo_noodle_b),
                   ((3, 5), demo_noodle_a), ((4, 6), demo_noodle_b),
                   ((7, 9), demo_noodle_a)]))
     9 (combination (get_epsilon_depths demo_sg)) [0..<4]
     = [[demo_noodle_a, demo_noodle_a, demo_noodle_a],
        [demo_noodle_b, demo_noodle_b, demo_noodle_a]]"
  by code_simp

lemma demo_lookups:
  "all_lookups_succeed
     (map_of (rev [((9, 1), demo_noodle_a), ((9, 2), demo_noodle_b),
                   ((3, 5), demo_noodle_a), ((4, 6), demo_noodle_b),
                   ((7, 9), demo_noodle_a)]))
     9 (combination (get_epsilon_depths demo_sg) 0)
   \<and> \<not> all_lookups_succeed
     (map_of (rev [((9, 1), demo_noodle_a), ((9, 2), demo_noodle_b),
                   ((3, 5), demo_noodle_a), ((4, 6), demo_noodle_b),
                   ((7, 9), demo_noodle_a)]))
     9 (combination (get_epsilon_depths demo_sg) 1)"
  by code_simp

lemma demo_print_afa_bits:
  "print_afa demo_lib demo_aut demo_sg [[0], [1], [2]] ([0, 1], 2) True = Inr demo_afa_bits"
  by code_simp

lemma demo_collect: "collect_initial_states demo_lib (get_segments_raw demo_sg) = Inr demo_init"
  by code_simp

lemma demo_remove:
  "remove_epsilon_sources (get_epsilon_depths demo_sg)
     (initStateToPreviousNonFinalStates demo_init)
     = Inr [(3, [0, 2]), (4, [0, 1]), (7, [3, 4])]"
  by code_simp

lemma demo_reachable_distinct:
  "\<forall>seg \<in> set (get_segments_raw demo_sg). distinct (get_reachable_states demo_lib seg)"
  by code_simp

section \<open>The single-segment fast path\<close>

text \<open>
  C10.  When the segmentation yields exactly one segment, \<^verbatim>\<open>noodlify\<close> returns before the
  printer starts: the call returns a result and the text written is empty, whatever
  \<^verbatim>\<open>include_empty\<close> and \<^verbatim>\<open>useBits\<close> are.
\<close>

theorem single_segment_prints_nothing:
  assumes "make_segmentation lib aut epsilon = Inr sg"
    and "length (get_segments_raw sg) = 1"
  shows "\<exists>noodles. noodlify lib aut epsilon variableLocations alph include_empty useBits
           = Inr (noodles, [])"
  using assms by (simp add: noodlify_def Let_def)

theorem single_segment_prints_nothing_witness:
  "make_segmentation demo_lib demo_var 2
     = Inr \<lparr>get_segments_raw = [demo_var], get_epsilon_depths = []\<rparr>
   \<and> length (get_segments_raw \<lparr>get_segments_raw = [demo_var], get_epsilon_depths = []\<rparr>) = 1
   \<and> (\<exists>noodles. noodlify demo_lib demo_var 2 [[0]] ([0, 1], 2) True False = Inr (noodles, []))"
  using single_segment_prints_nothing[OF demo_segmentation_var, of "[[0]]" "([0, 1], 2)" True False]
  by (simp add: demo_segmentation_var)

text \<open>
  C7.  With exactly one segment \<open>seg0\<close> the result is \<open>[[trim seg0]]\<close> when the trimmed
  segment has a state or \<^verbatim>\<open>include_empty\<close> is set, and \<open>[]\<close> otherwise.  In particular,
  when the only segment is the input automaton itself (what the segmentation returns for
  an automaton without \<open>\<epsilon>\<close>-transitions) and its trimmed form has a state, the result is
  \<open>[[trim aut]]\<close>.
\<close>

theorem single_segment_result:
  assumes "make_segmentation lib aut epsilon = Inr sg"
    and "get_segments_raw sg = [seg0]"
  shows "noodlify lib aut epsilon variableLocations alph include_empty useBits
           = Inr (if get_num_of_states lib (trim lib seg0) > 0 \<or> include_empty
                  then [[trim lib seg0]] else [], [])
         \<and> (seg0 = aut \<and> get_num_of_states lib (trim lib aut) > 0 \<longrightarrow>
              noodlify lib aut epsilon variableLocations alph include_empty useBits
                = Inr ([[trim lib aut]], []))"
  using assms by (simp add: noodlify_def Let_def)

theorem single_segment_result_witness:
  "make_segmentation demo_lib demo_var 2
     = Inr \<lparr>get_segments_raw = [demo_var], get_epsilon_depths = []\<rparr>
   \<and> get_num_of_states demo_lib (trim demo_lib demo_var) > 0
   \<and> noodlify demo_lib demo_var 2 [[0]] ([0, 1], 2) False True = Inr ([[demo_var]], [])"
  using single_segment_result[OF demo_segmentation_var, of demo_var "[[0]]" "([0, 1], 2)" False True]
  by (simp add: demo_segmentation_var demo_trim_var demo_num_of_states_var)

section \<open>The equation driver\<close>

lemma equation_body_empty_product:
  "is_lang_empty lib (product_pres_eps_trans lib left_automata right_automaton st) \<Longrightarrow>
   equation_body lib left_automata right_automaton variableLocations include_empty
     reduce_value params st = Inr ([], [])"
  by (simp add: equation_body_def Let_def split: prod.splits)

text \<open>
  C1.  In both overloads: when the trimmed product of the concatenated left side and the
  right side (built from the automata as the call leaves them in the store) has an empty
  language, the call returns the empty \<^verbatim>\<open>NoodleSequence\<close> and nothing is written.
\<close>

theorem empty_product_returns_empty:
  "(is_lang_empty lib
      (product_pres_eps_trans lib left_automata right_automaton
         (snd (noodlify_for_equation_ref lib left_automata right_automaton variableLocations
                 include_empty params st))) \<longrightarrow>
    fst (noodlify_for_equation_ref lib left_automata right_automaton variableLocations
           include_empty params st) = Inr ([], []))
   \<and> (is_lang_empty lib
      (product_pres_eps_trans lib left_automata right_automaton
         (snd (noodlify_for_equation_ptr lib left_automata right_automaton variableLocations
                 include_empty params st))) \<longrightarrow>
    fst (noodlify_for_equation_ptr lib left_automata right_automaton variableLocations
           include_empty params st) = Inr ([], []))"
  by (simp add: noodlify_for_equation_ref_def noodlify_for_equation_ptr_def Let_def
        equation_body_empty_product)

theorem empty_product_returns_empty_witness:
  "is_lang_empty demo_lib (product_pres_eps_trans demo_lib [0, 3] 2 demo_store)
   \<and> snd (noodlify_for_equation_ref demo_lib [0, 3] 2 [[0], [1]] False Map.empty demo_store)
       = demo_store
   \<and> fst (noodlify_for_equation_ref demo_lib [0, 3] 2 [[0], [1]] False Map.empty demo_store)
       = Inr ([], [])
   \<and> snd (noodlify_for_equation_ptr demo_lib [0, 3] 2 [[0], [1]] False Map.empty demo_store)
       = demo_store
   \<and> fst (noodlify_for_equation_ptr demo_lib [0, 3] 2 [[0], [1]] False Map.empty demo_store)
       = Inr ([], [])"
proof -
  have r: "snd (noodlify_for_equation_ref demo_lib [0, 3] 2 [[0], [1]] False Map.empty demo_store)
             = demo_store"
    by (simp add: noodlify_for_equation_ref_def Let_def demo_unify_all)
  have p: "snd (noodlify_for_equation_ptr demo_lib [0, 3] 2 [[0], [1]] False Map.empty demo_store)
             = demo_store"
    by (simp add: noodlify_for_equation_ptr_def Let_def)
  from empty_product_returns_empty[of demo_lib "[0, 3]" 2 "[[0], [1]]" False Map.empty demo_store]
  show ?thesis
    unfolding r p using demo_empty_product r p by simp
qed

lemma unify_all_unified_store:
  "unify_all lib left_automata st = unified_store lib left_automata st"
proof (induction left_automata arbitrary: st)
  case Nil
  then show ?case by (simp add: unify_all_def unified_store_def)
next
  case (Cons b bs)
  let ?st' = "st(b := unify_final lib (unify_initial lib (st b)))"
  have "unify_all lib (b # bs) st = unify_all lib bs ?st'"
    by (simp add: unify_all_def)
  also have "\<dots> = unified_store lib bs ?st'"
    by (rule Cons.IH)
  also have "\<dots> = unified_store lib (b # bs) st"
    by (rule ext)
       (simp add: unified_store_def
          funpow_swap1[of "\<lambda>A. unify_final lib (unify_initial lib A)"])
  finally show ?case .
qed

text \<open>
  C2.  The overload over references leaves the store in which every left-hand automaton
  has gone through \<^verbatim>\<open>unify_initial\<close> and \<^verbatim>\<open>unify_final\<close> once for each of its occurrences
  in the sequence, whatever the other arguments are (so also when the call returns at a
  short-circuit), and every other automaton is as it was.  The overload over pointers
  leaves that same store when a reduction is requested, and the store it was given
  otherwise.
\<close>

theorem unification_of_left_automata:
  "snd (noodlify_for_equation_ref lib left_automata right_automaton variableLocations
          include_empty params st) = unified_store lib left_automata st
   \<and> snd (noodlify_for_equation_ptr lib left_automata right_automaton variableLocations
          include_empty params st)
       = (if reduction_requested params then unified_store lib left_automata st else st)"
proof -
  have "snd (noodlify_for_equation_ptr lib left_automata right_automaton variableLocations
          include_empty params st)
       = (if reduction_requested params then unify_all lib left_automata st else st)"
    by (auto simp add: noodlify_for_equation_ptr_def Let_def reduction_requested_def
          split: option.splits)
  then show ?thesis
    by (simp add: noodlify_for_equation_ref_def Let_def unify_all_unified_store)
qed

lemma demo_unify_two:
  "unify_final demo_lib (unify_initial demo_lib demo_two)
     = \<lparr> transitionrelation =
           [ [\<lparr>symbol = 0, states_to = [2]\<rparr>], [\<lparr>symbol = 1, states_to = [2]\<rparr>], [],
             [\<lparr>symbol = 0, states_to = [2]\<rparr>, \<lparr>symbol = 1, states_to = [2]\<rparr>] ],
         initialstates = [3],
         finalstates = [2] \<rparr>"
  by code_simp

lemma demo_unify_two_twice:
  "unify_final demo_lib (unify_initial demo_lib
     \<lparr> transitionrelation =
           [ [\<lparr>symbol = 0, states_to = [2]\<rparr>], [\<lparr>symbol = 1, states_to = [2]\<rparr>], [],
             [\<lparr>symbol = 0, states_to = [2]\<rparr>, \<lparr>symbol = 1, states_to = [2]\<rparr>] ],
         initialstates = [3],
         finalstates = [2] \<rparr>)
     = \<lparr> transitionrelation =
           [ [\<lparr>symbol = 0, states_to = [2]\<rparr>], [\<lparr>symbol = 1, states_to = [2]\<rparr>], [],
             [\<lparr>symbol = 0, states_to = [2]\<rparr>, \<lparr>symbol = 1, states_to = [2]\<rparr>] ],
         initialstates = [3],
         finalstates = [2] \<rparr>"
  by code_simp

lemma demo_unified_store:
  "unified_store demo_lib [4, 1, 4] demo_store 4
     = unify_final demo_lib (unify_initial demo_lib
         (unify_final demo_lib (unify_initial demo_lib demo_two)))"
  "unified_store demo_lib [4, 1, 4] demo_store 1
     = unify_final demo_lib (unify_initial demo_lib demo_var)"
  "unified_store demo_lib [4, 1, 4] demo_store 2 = demo_rhs"
  by (simp_all add: unified_store_def demo_store_def eval_nat_numeral)

lemma demo_unify_var: "unify_final demo_lib (unify_initial demo_lib demo_var) = demo_var"
  by code_simp

text \<open>
  The sequence \<open>[4, 1, 4]\<close> names the automaton with two initial states twice: it is
  unified at each occurrence.  Here the second unification finds one initial and one
  final state and changes nothing more; the right side, which the sequence does not
  name, is as it was.
\<close>

theorem unification_of_left_automata_witness:
  "snd (noodlify_for_equation_ref demo_lib [4, 1, 4] 2 [[0], [1], [2]] False Map.empty
          demo_store) 4
       = \<lparr> transitionrelation =
           [ [\<lparr>symbol = 0, states_to = [2]\<rparr>], [\<lparr>symbol = 1, states_to = [2]\<rparr>], [],
             [\<lparr>symbol = 0, states_to = [2]\<rparr>, \<lparr>symbol = 1, states_to = [2]\<rparr>] ],
           initialstates = [3],
           finalstates = [2] \<rparr>
   \<and> snd (noodlify_for_equation_ref demo_lib [4, 1, 4] 2 [[0], [1], [2]] False Map.empty
          demo_store) 1 = demo_var
   \<and> snd (noodlify_for_equation_ref demo_lib [4, 1, 4] 2 [[0], [1], [2]] False Map.empty
          demo_store) 2 = demo_rhs
   \<and> \<not> reduction_requested Map.empty
   \<and> snd (noodlify_for_equation_ptr demo_lib [4, 1, 4] 2 [[0], [1], [2]] False Map.empty
          demo_store) = demo_store
   \<and> reduction_requested [''reduce'' \<mapsto> ''backward'']
   \<and> snd (noodlify_for_equation_ptr demo_lib [4, 1, 4] 2 [[0], [1], [2]] False
             [''reduce'' \<mapsto> ''backward''] demo_store) 4
       = \<lparr> transitionrelation =
           [ [\<lparr>symbol = 0, states_to = [2]\<rparr>], [\<lparr>symbol = 1, states_to = [2]\<rparr>], [],
             [\<lparr>symbol = 0, states_to = [2]\<rparr>, \<lparr>symbol = 1, states_to = [2]\<rparr>] ],
           initialstates = [3],
           finalstates = [2] \<rparr>"
proof -
  have no: "\<not> reduction_requested Map.empty"
    by (simp add: reduction_requested_def)
  have yes: "reduction_requested [''reduce'' \<mapsto> ''backward'']"
    by (simp add: reduction_requested_def)
  note plain = unification_of_left_automata[of demo_lib "[4, 1, 4]" 2 "[[0], [1], [2]]" False
                 Map.empty demo_store]
  note backward = unification_of_left_automata[of demo_lib "[4, 1, 4]" 2 "[[0], [1], [2]]"
                    False "[''reduce'' \<mapsto> ''backward'']" demo_store]
  from plain have r: "snd (noodlify_for_equation_ref demo_lib [4, 1, 4] 2 [[0], [1], [2]] False
                             Map.empty demo_store)
                        = unified_store demo_lib [4, 1, 4] demo_store"
    by (rule conjunct1)
  from plain no have p: "snd (noodlify_for_equation_ptr demo_lib [4, 1, 4] 2 [[0], [1], [2]]
                                False Map.empty demo_store) = demo_store"
    by (simp only: if_False)
  from backward yes have b: "snd (noodlify_for_equation_ptr demo_lib [4, 1, 4] 2 [[0], [1], [2]]
                                False [''reduce'' \<mapsto> ''backward''] demo_store)
                        = unified_store demo_lib [4, 1, 4] demo_store"
    by (simp only: if_True)
  show ?thesis
    unfolding r p b demo_unified_store demo_unify_two demo_unify_two_twice demo_unify_var
    using no yes by (intro conjI) (rule refl | assumption)+
qed

section \<open>The segment registry\<close>

lemma kept_append [simp]:
  "kept lib ie (xs @ ys) = kept lib ie xs @ kept lib ie ys"
  by (simp add: kept_def)

lemma kept_Nil [simp]: "kept lib ie [] = []"
  by (simp add: kept_def)

lemma foldl_insert_trimmed:
  "foldl (\<lambda>m x. insert_trimmed lib ie (k x) (c x) m) m xs
     = m ++ map_of (rev (kept lib ie (map (\<lambda>x. (k x, c x)) xs)))"
proof (induction xs arbitrary: m)
  case Nil
  then show ?case by simp
next
  case (Cons x xs)
  show ?case
  proof (cases "stored lib ie (c x)")
    case True
    then have "insert_trimmed lib ie (k x) (c x) m = m(k x \<mapsto> trim lib (c x))"
      by (simp add: insert_trimmed_def stored_def Let_def)
    then show ?thesis
      using True by (simp add: Cons.IH kept_def map_add_upd_left map_add_def fun_eq_iff split: option.splits)
  next
    case False
    then have "insert_trimmed lib ie (k x) (c x) m = m"
      by (auto simp add: insert_trimmed_def stored_def Let_def)
    then show ?thesis
      using False by (simp add: Cons.IH kept_def)
  qed
qed

lemma first_segment_entries:
  "first_segment lib ie u seg m = m ++ map_of (rev (kept lib ie (first_entries lib u seg)))"
  unfolding first_segment_def first_entries_def by (rule foldl_insert_trimmed)

lemma last_segment_entries:
  "last_segment lib ie u seg m = m ++ map_of (rev (kept lib ie (last_entries lib u seg)))"
  unfolding last_segment_def last_entries_def by (rule foldl_insert_trimmed)

lemma foldl_map_add_entries:
  "foldl (\<lambda>m x. m ++ map_of (rev (kept lib ie (g x)))) m xs
     = m ++ map_of (rev (kept lib ie (concat (map g xs))))"
  by (induction xs arbitrary: m) simp_all

lemma middle_segment_entries:
  "middle_segment lib ie seg m = m ++ map_of (rev (kept lib ie (middle_entries lib seg)))"
proof -
  have "middle_segment lib ie seg m
          = foldl (\<lambda>m i. m ++ map_of (rev (kept lib ie
                     (map (\<lambda>f. ((i, f), seg\<lparr>initialstates := [i], finalstates := [f]\<rparr>)) (finalstates seg)))))
              m (initialstates seg)"
    unfolding middle_segment_def by (simp add: foldl_insert_trimmed)
  then show ?thesis
    by (simp add: foldl_map_add_entries middle_entries_def)
qed

lemma segments_loop_tail:
  "rest \<noteq> [] \<Longrightarrow>
   segments_loop lib ie u False rest m
     = m ++ map_of (rev (kept lib ie (concat (map (middle_entries lib) (butlast rest))
                                      @ last_entries lib u (last rest))))"
proof (induction rest arbitrary: m)
  case Nil
  then show ?case by simp
next
  case (Cons seg rest)
  show ?case
  proof (cases "rest = []")
    case True
    then show ?thesis by (simp add: last_segment_entries)
  next
    case False
    with Cons.IH[OF False] show ?thesis
      by (simp add: middle_segment_entries)
  qed
qed

lemma segments_one_initial_final_entries:
  assumes "2 \<le> length segments"
  shows "segments_one_initial_final lib ie u segments
           = map_of (rev (kept lib ie (pinned_copies lib u segments)))"
proof -
  from assms obtain seg rest where s: "segments = seg # rest" "rest \<noteq> []"
    by (cases segments) (auto simp: Suc_le_eq)
  show ?thesis
    unfolding s segments_one_initial_final_def pinned_copies_def
    using s(2) by (simp add: first_segment_entries segments_loop_tail)
qed

lemma map_of_rev_kept_dom:
  "dom (map_of (rev (kept lib ie entries)))
     = {key. \<exists>copy. (key, copy) \<in> set entries \<and> stored lib ie copy}"
  by (force simp: dom_map_of_conv_image_fst kept_def)

lemma map_of_rev_kept_Some:
  "map_of (rev (kept lib ie entries)) key = Some a \<Longrightarrow>
     \<exists>copy. (key, copy) \<in> set entries \<and> stored lib ie copy \<and> a = trim lib copy"
  by (drule map_of_SomeD) (auto simp: kept_def)

text \<open>
  C8.  For at least two segments, and with the sentinel \<open>\<bottom>\<close> being the number of states of
  the ambient automaton: the keys of the registry are exactly the keys of the pinned
  copies that pass the test (\<open>pinned_copies\<close>: \<open>(\<bottom>, f)\<close> for the final states of the first
  segment, \<open>(i, f)\<close> for the segments in between, \<open>(i, \<bottom>)\<close> for the initial states of the
  last segment); every stored automaton is the trimmed form of a pinned copy under its
  key, and has a state unless \<^verbatim>\<open>include_empty\<close> is set (invariant I2).
\<close>

theorem registry_construction:
  assumes "2 \<le> length segments"
  shows "dom (segments_one_initial_final lib include_empty (get_num_of_states lib aut) segments)
           = {key. \<exists>copy. (key, copy) \<in> set (pinned_copies lib (get_num_of_states lib aut) segments)
                          \<and> stored lib include_empty copy}
         \<and> (\<forall>key a.
               segments_one_initial_final lib include_empty (get_num_of_states lib aut) segments key
                 = Some a
               \<longrightarrow> (\<exists>copy. (key, copy) \<in> set (pinned_copies lib (get_num_of_states lib aut) segments)
                            \<and> a = trim lib copy)
                   \<and> (get_num_of_states lib a > 0 \<or> include_empty))"
  unfolding segments_one_initial_final_entries[OF assms] map_of_rev_kept_dom
  by (auto dest!: map_of_rev_kept_Some simp: stored_def)

lemma demo_two_segments: "2 \<le> length (get_segments_raw demo_sg)"
  by (simp add: demo_sg_def)

lemma demo_registry:
  "segments_one_initial_final demo_lib False 9 (get_segments_raw demo_sg)
     = map_of (rev [((9, 1), demo_noodle_a), ((9, 2), demo_noodle_b),
                    ((3, 5), demo_noodle_a), ((4, 6), demo_noodle_b),
                    ((7, 9), demo_noodle_a)])"
  by (simp only: segments_one_initial_final_entries[OF demo_two_segments] demo_registry_entries)

theorem registry_construction_witness:
  "2 \<le> length (get_segments_raw demo_sg)
   \<and> segments_one_initial_final demo_lib False (get_num_of_states demo_lib demo_aut)
       (get_segments_raw demo_sg) (3, 5) = Some demo_noodle_a
   \<and> segments_one_initial_final demo_lib False (get_num_of_states demo_lib demo_aut)
       (get_segments_raw demo_sg) (3, 6) = None
   \<and> (\<exists>copy. ((3, 5), copy)
                 \<in> set (pinned_copies demo_lib (get_num_of_states demo_lib demo_aut)
                          (get_segments_raw demo_sg))
              \<and> demo_noodle_a = trim demo_lib copy)
   \<and> get_num_of_states demo_lib demo_noodle_a > 0"
proof -
  have m: "segments_one_initial_final demo_lib False (get_num_of_states demo_lib demo_aut)
             (get_segments_raw demo_sg) (3, 5) = Some demo_noodle_a"
    and n: "segments_one_initial_final demo_lib False (get_num_of_states demo_lib demo_aut)
             (get_segments_raw demo_sg) (3, 6) = None"
    by (simp_all add: demo_num_of_states_aut demo_registry)
  from registry_construction[OF demo_two_segments, of demo_lib False demo_aut] m
  have "(\<exists>copy. ((3, 5), copy)
                 \<in> set (pinned_copies demo_lib (get_num_of_states demo_lib demo_aut)
                          (get_segments_raw demo_sg))
              \<and> demo_noodle_a = trim demo_lib copy)
        \<and> get_num_of_states demo_lib demo_noodle_a > 0"
    by blast
  with m n demo_two_segments show ?thesis by blast
qed

section \<open>The enumeration of the noodles\<close>

lemma epsilon_noodle_from_mixed_radix:
  assumes "\<forall>j. depth \<le> j \<and> j < depth + n \<longrightarrow> (\<exists>ts. map_of eps j = Some ts \<and> ts \<noteq> [])"
  shows "epsilon_noodle_from eps depth n temp =
           Inr (map2 (\<lambda>ts digit. ts ! digit)
                  (map (\<lambda>d. the (map_of eps d)) [depth..<depth + n])
                  (mixed_radix (map length (map (\<lambda>d. the (map_of eps d)) [depth..<depth + n])) temp))"
  using assms
proof (induction n arbitrary: depth temp)
  case 0
  then show ?case by simp
next
  case (Suc n)
  from Suc.prems obtain ts where ts: "map_of eps depth = Some ts" "ts \<noteq> []"
    using Suc.prems[rule_format, of depth] by auto
  have rest: "\<forall>j. Suc depth \<le> j \<and> j < Suc depth + n \<longrightarrow> (\<exists>ts. map_of eps j = Some ts \<and> ts \<noteq> [])"
    using Suc.prems by simp
  have upt: "[depth..<depth + Suc n] = depth # [Suc depth..<Suc depth + n]"
    by (simp add: upt_conv_Cons)
  show ?case
    unfolding upt using ts Suc.IH[OF rest] by (simp add: Let_def)
qed

lemma middle_segments_keys:
  "middle_segments m ts noodle =
     (if list_all (\<lambda>key. m key \<noteq> None) (map (\<lambda>p. (tgt (fst p), src (snd p))) (zip ts (tl ts)))
      then Some (noodle @ map (\<lambda>key. the (m key))
                            (map (\<lambda>p. (tgt (fst p), src (snd p))) (zip ts (tl ts))))
      else None)"
proof (induction m ts noodle rule: middle_segments.induct)
  case (1 m t t' rest noodle)
  show ?case
  proof (cases "m (tgt t, src t')")
    case None
    then show ?thesis by simp
  next
    case (Some segment)
    from "1.IH"[OF Some] Some show ?thesis by simp
  qed
qed simp_all

lemma make_noodle_keys:
  assumes "ts \<noteq> []"
  shows "make_noodle m u ts =
           Inr (if all_lookups_succeed m u ts
                then Some (map (\<lambda>key. the (m key)) (noodle_keys u ts)) else None)"
proof -
  from assms obtain t0 rest where ts: "ts = t0 # rest" by (cases ts) auto
  show ?thesis
    unfolding ts
    by (cases "m (u, src t0)"; cases "m (tgt (last (t0 # rest)), u)")
       (auto simp: make_noodle_def middle_segments_keys all_lookups_succeed_def noodle_keys_def
             simp del: middle_segments.simps)
qed

lemma noodles_loop_enumerated:
  assumes "\<forall>i. index \<le> i \<and> i < N \<longrightarrow>
             epsilon_noodle_from eps 0 (length eps) i = Inr (comb i) \<and> comb i \<noteq> []"
  shows "noodles_loop m u eps N index noodles
           = Inr (noodles @ enumerated m u comb [index..<N])"
  using assms
proof (induction m u eps N index noodles rule: noodles_loop.induct)
  case (1 m u eps N index noodles)
  show ?case
  proof (cases "index < N")
    case False
    then show ?thesis by (simp add: noodles_loop.simps[of m u eps N index] enumerated_def)
  next
    case True
    with "1.prems" have en: "epsilon_noodle_from eps 0 (length eps) index = Inr (comb index)"
      and ne: "comb index \<noteq> []" by auto
    have rest: "\<forall>i. Suc index \<le> i \<and> i < N \<longrightarrow>
             epsilon_noodle_from eps 0 (length eps) i = Inr (comb i) \<and> comb i \<noteq> []"
      using "1.prems" by auto
    have upt: "[index..<N] = index # [Suc index..<N]"
      using True by (simp add: upt_conv_Cons)
    show ?thesis
    proof (cases "all_lookups_succeed m u (comb index)")
      case False
      then have mk: "make_noodle m u (comb index) = Inr None"
        using make_noodle_keys[OF ne] by simp
      from "1.IH"(1)[OF True en mk refl rest] False True en mk show ?thesis
        by (simp add: noodles_loop.simps[of m u eps N index] upt enumerated_def)
    next
      case succeed: True
      then have mk: "make_noodle m u (comb index)
                       = Inr (Some (map (\<lambda>key. the (m key)) (noodle_keys u (comb index))))"
        using make_noodle_keys[OF ne] by simp
      from "1.IH"(2)[OF True en mk refl rest] succeed True en mk show ?thesis
        by (simp add: noodles_loop.simps[of m u eps N index] upt enumerated_def)
    qed
  qed
qed

lemma foldl_mult_mod:
  "foldl (\<lambda>n (x::'a). (n * f x) mod M) (a::nat) xs
     = (if xs = [] then a else (a * prod_list (map f xs)) mod M)"
proof (induction xs arbitrary: a)
  case Nil
  then show ?case by simp
next
  case (Cons x xs)
  show ?case
  proof (cases "xs = []")
    case True
    then show ?thesis by simp
  next
    case False
    have "a * f x mod M * prod_list (map f xs) mod M = a * (f x * prod_list (map f xs)) mod M"
      by (simp add: mod_mult_left_eq mult.assoc)
    with False show ?thesis
      by (simp add: Cons.IH)
  qed
qed

lemma get_num_of_permutations_prod:
  "get_num_of_permutations eps = prod_list (map (\<lambda>e. length (snd e)) eps) mod 2 ^ 64"
  unfolding get_num_of_permutations_def by (simp add: foldl_mult_mod)

lemma dense_depths_lookup:
  assumes "dense_depths eps" "d < length eps"
  shows "\<exists>ts. map_of eps d = Some ts \<and> (d, ts) \<in> set eps"
proof -
  from assms have "d \<in> fst ` set eps" by (simp add: dense_depths_def)
  then obtain ts where "(d, ts) \<in> set eps" by force
  moreover from assms have "distinct (map fst eps)" by (simp add: dense_depths_def)
  ultimately show ?thesis by (auto intro: map_of_is_SomeI)
qed

lemma dense_depths_mset:
  assumes "dense_depths eps"
  shows "mset (depth_transitions eps) = mset (map snd eps)"
proof -
  from assms have d: "distinct (map fst eps)" and s: "set (map fst eps) = {0..<length eps}"
    by (simp_all add: dense_depths_def)
  have "mset (map fst eps) = mset [0..<length eps]"
    using d s by (intro set_eq_iff_mset_eq_distinct[THEN iffD1]) auto
  then have "image_mset (\<lambda>k. the (map_of eps k)) (mset (map fst eps))
               = image_mset (\<lambda>k. the (map_of eps k)) (mset [0..<length eps])"
    by simp
  moreover have "map (\<lambda>k. the (map_of eps k)) (map fst eps) = map snd eps"
    using d by (induction eps) (auto simp: rev_image_eqI)
  ultimately show ?thesis
    unfolding depth_transitions_def by (metis mset_map)
qed

lemma num_combinations_entries:
  assumes "dense_depths eps"
  shows "prod_list (map (\<lambda>e. length (snd e)) eps) = num_combinations eps"
proof -
  have "prod_list (map length (map snd eps)) = prod_list (map length (depth_transitions eps))"
    using dense_depths_mset[OF assms]
    by (metis mset_map prod_mset_prod_list)
  then show ?thesis by (simp add: num_combinations_def comp_def)
qed

lemma length_mixed_radix [simp]: "length (mixed_radix ks index) = length ks"
  by (induction ks arbitrary: index) simp_all

lemma length_combination: "length (combination eps index) = length eps"
  by (simp add: combination_def depth_transitions_def)

lemma dense_depths_nonempty_lists:
  assumes d: "dense_depths eps" and pos: "0 < num_combinations eps"
  shows "\<forall>j. 0 \<le> j \<and> j < 0 + length eps \<longrightarrow> (\<exists>ts. map_of eps j = Some ts \<and> ts \<noteq> [])"
proof (intro allI impI)
  fix j assume "0 \<le> j \<and> j < 0 + length eps"
  then have j: "j < length eps" by simp
  from dense_depths_lookup[OF d j] obtain ts where ts: "map_of eps j = Some ts" by blast
  have "ts \<in> set (depth_transitions eps)"
    using j ts by (force simp: depth_transitions_def image_iff)
  moreover from pos have "0 \<notin> set (map length (depth_transitions eps))"
    using prod_list_zero_iff[of "map length (depth_transitions eps)"]
    by (auto simp: num_combinations_def)
  ultimately have "ts \<noteq> []" by auto
  with ts show "\<exists>ts. map_of eps j = Some ts \<and> ts \<noteq> []" by blast
qed

lemma epsilon_noodle_from_combination:
  assumes "dense_depths eps" "0 < num_combinations eps"
  shows "epsilon_noodle_from eps 0 (length eps) index = Inr (combination eps index)"
  using epsilon_noodle_from_mixed_radix[OF dense_depths_nonempty_lists[OF assms], of index]
  by (simp add: combination_def depth_transitions_def)

lemma noodlify_general_path:
  assumes seg: "make_segmentation lib aut epsilon = Inr sg"
    and inv: "segmentation_invariant sg"
    and two: "2 \<le> length (get_segments_raw sg)"
    and printed: "print_afa lib aut sg variableLocations alph useBits = Inr afaOutput"
  shows "noodlify lib aut epsilon variableLocations alph include_empty useBits
           = Inr (enumerated
                    (segments_one_initial_final lib include_empty (get_num_of_states lib aut)
                       (get_segments_raw sg))
                    (get_num_of_states lib aut)
                    (combination (get_epsilon_depths sg))
                    [0..<num_combinations (get_epsilon_depths sg) mod 2 ^ 64],
                  afaOutput)"
proof -
  let ?eps = "get_epsilon_depths sg"
  let ?N = "num_combinations ?eps mod 2 ^ 64"
  from inv have d: "dense_depths ?eps" and len: "length ?eps + 1 = length (get_segments_raw sg)"
    by (simp_all add: segmentation_invariant_def)
  from len two have ne: "?eps \<noteq> []" by auto
  have N: "get_num_of_permutations ?eps = ?N"
    by (simp add: get_num_of_permutations_prod num_combinations_entries[OF d])
  have "\<forall>i. 0 \<le> i \<and> i < ?N \<longrightarrow>
          epsilon_noodle_from ?eps 0 (length ?eps) i = Inr (combination ?eps i)
          \<and> combination ?eps i \<noteq> []"
  proof (intro allI impI)
    fix i assume "0 \<le> i \<and> i < ?N"
    then have "0 < ?N" by simp
    then have pos: "0 < num_combinations ?eps" by (cases "num_combinations ?eps = 0") simp_all
    have "length (combination ?eps i) \<noteq> 0" using ne by (simp add: length_combination)
    then have "combination ?eps i \<noteq> []" by auto
    with epsilon_noodle_from_combination[OF d pos]
    show "epsilon_noodle_from ?eps 0 (length ?eps) i = Inr (combination ?eps i)
          \<and> combination ?eps i \<noteq> []" by simp
  qed
  from noodles_loop_enumerated[OF this] seg two printed N show ?thesis
    by (simp add: noodlify_def Let_def)
qed

text \<open>
  C5.  For a segmentation with invariant I1 and at least two segments, when the printer
  completes: \<^verbatim>\<open>noodlify\<close> returns the noodles of the indices \<open>0, \<dots>, N - 1\<close>, in increasing
  order, whose lookups all succeed; the \<open>\<epsilon>\<close>-transition that combination \<open>index\<close> takes at
  depth \<open>d\<close> is entry \<open>index mod k\<^sub>d\<close> of that depth, the index being divided by \<open>k\<^sub>d\<close> for
  the next depth (\<open>combination\<close>, \<open>mixed_radix\<close>).  The bound \<open>N\<close> is the value of
  \<^verbatim>\<open>get_num_of_permutations\<close>, the product \<open>\<Prod>\<^sub>d k\<^sub>d\<close> taken in \<^verbatim>\<open>size_t\<close>: it is the number of
  combinations as long as that number is below \<open>2 ^ 64\<close>, and its remainder modulo
  \<open>2 ^ 64\<close> in general.
\<close>

theorem mixed_radix_enumeration:
  assumes "make_segmentation lib aut epsilon = Inr sg"
    and "segmentation_invariant sg"
    and "2 \<le> length (get_segments_raw sg)"
    and "print_afa lib aut sg variableLocations alph useBits = Inr afaOutput"
  shows "get_num_of_permutations (get_epsilon_depths sg)
           = num_combinations (get_epsilon_depths sg) mod 2 ^ 64
         \<and> noodlify lib aut epsilon variableLocations alph include_empty useBits
           = Inr (enumerated
                    (segments_one_initial_final lib include_empty (get_num_of_states lib aut)
                       (get_segments_raw sg))
                    (get_num_of_states lib aut)
                    (combination (get_epsilon_depths sg))
                    [0..<get_num_of_permutations (get_epsilon_depths sg)],
                  afaOutput)"
proof -
  from assms(2) have "dense_depths (get_epsilon_depths sg)"
    by (simp add: segmentation_invariant_def)
  then have "get_num_of_permutations (get_epsilon_depths sg)
               = num_combinations (get_epsilon_depths sg) mod 2 ^ 64"
    by (simp add: get_num_of_permutations_prod num_combinations_entries)
  with noodlify_general_path[OF assms] show ?thesis by simp
qed

text \<open>
  The chain of 65 segments has 64 depths with two \<open>\<epsilon>\<close>-transitions each, so
  \<open>\<Prod>\<^sub>d k\<^sub>d = 2 ^ 64\<close>: \<^verbatim>\<open>get_num_of_permutations\<close> returns \<open>0\<close> and the loop visits no index,
  also with a registry in which every lookup succeeds, where the combination of index
  \<open>0\<close> is a noodle of 65 segments.
\<close>

lemma demo_chain_product:
  "prod_list (map (\<lambda>e. length (snd e)) demo_chain_depths) = 2 ^ 64"
proof -
  have "map (\<lambda>e. length (snd e)) demo_chain_depths = replicate 64 2"
    by (simp add: demo_chain_depths_def comp_def map_replicate_const)
  then show ?thesis by (simp add: prod_list_replicate)
qed

lemma demo_chain_dense: "dense_depths demo_chain_depths"
  by (simp add: dense_depths_def demo_chain_depths_def comp_def)

lemma demo_chain_permutations: "get_num_of_permutations demo_chain_depths = 0"
  by (simp add: get_num_of_permutations_prod demo_chain_product)

lemma demo_chain_combinations: "num_combinations demo_chain_depths = 2 ^ 64"
  using num_combinations_entries[OF demo_chain_dense] demo_chain_product by simp

lemma length_noodle_keys:
  "ts \<noteq> [] \<Longrightarrow> length (noodle_keys unused_state ts) = Suc (length ts)"
  by (cases ts) (simp_all add: noodle_keys_def)

lemma demo_chain_first_noodle:
  "enumerated (\<lambda>key. Some demo_noodle_a) 195 (combination demo_chain_depths) [0]
     = [replicate 65 demo_noodle_a]"
proof -
  have "length (combination demo_chain_depths 0) = 64"
    by (simp add: length_combination demo_chain_depths_def)
  moreover from this have "combination demo_chain_depths 0 \<noteq> []"
    by auto
  ultimately have "length (noodle_keys 195 (combination demo_chain_depths 0)) = 65"
    by (simp add: length_noodle_keys)
  then show ?thesis
    by (simp add: enumerated_def all_lookups_succeed_def list_all_iff map_replicate_const)
qed

theorem mixed_radix_enumeration_counterexample:
  "dense_depths demo_chain_depths
   \<and> num_combinations demo_chain_depths = 18446744073709551616
   \<and> get_num_of_permutations demo_chain_depths = 0
   \<and> noodles_loop (\<lambda>key. Some demo_noodle_a) 195 demo_chain_depths
        (get_num_of_permutations demo_chain_depths) 0 [] = Inr []
   \<and> enumerated (\<lambda>key. Some demo_noodle_a) 195 (combination demo_chain_depths) [0]
       = [replicate 65 demo_noodle_a]"
  using demo_chain_combinations demo_chain_first_noodle
  by (simp add: demo_chain_dense demo_chain_permutations noodles_loop.simps)

theorem mixed_radix_enumeration_witness:
  "make_segmentation demo_lib demo_aut 2 = Inr demo_sg
   \<and> segmentation_invariant demo_sg
   \<and> 2 \<le> length (get_segments_raw demo_sg)
   \<and> print_afa demo_lib demo_aut demo_sg [[0], [1], [2]] ([0, 1], 2) True = Inr demo_afa_bits
   \<and> get_num_of_permutations (get_epsilon_depths demo_sg) = 4
   \<and> map (mixed_radix [2, 2]) [0, 1, 2, 3] = [[0, 0], [1, 0], [0, 1], [1, 1]]
   \<and> noodlify demo_lib demo_aut 2 [[0], [1], [2]] ([0, 1], 2) False True
       = Inr ([[demo_noodle_a, demo_noodle_a, demo_noodle_a],
               [demo_noodle_b, demo_noodle_b, demo_noodle_a]], demo_afa_bits)"
proof -
  note t = mixed_radix_enumeration[OF demo_segmentation_aut demo_invariant demo_two_segments
             demo_print_afa_bits, of False]
  from t have n: "get_num_of_permutations (get_epsilon_depths demo_sg) = 4"
    by (simp add: demo_num_combinations)
  from t have "noodlify demo_lib demo_aut 2 [[0], [1], [2]] ([0, 1], 2) False True
          = Inr ([[demo_noodle_a, demo_noodle_a, demo_noodle_a],
                  [demo_noodle_b, demo_noodle_b, demo_noodle_a]], demo_afa_bits)"
    unfolding n by (simp only: demo_num_of_states_aut demo_registry demo_enumerated)
  moreover have "map (mixed_radix [2, 2]) [0, 1, 2, 3] = [[0, 0], [1, 0], [0, 1], [1, 1]]"
    by simp
  ultimately show ?thesis
    using demo_segmentation_aut demo_invariant demo_two_segments n demo_print_afa_bits
    by blast
qed

lemma length_filter_eq_iff:
  "length (filter P xs) = length xs \<longleftrightarrow> (\<forall>x \<in> set xs. P x)"
  by (metis filter_True filter_id_conv length_filter_less less_irrefl_nat)

text \<open>
  C6.  Under the same conditions the call returns, and the number of noodles is at most
  \<open>\<Prod>\<^sub>d k\<^sub>d\<close>, whatever the product is; it is \<open>0\<close> when some depth has no \<open>\<epsilon>\<close>-transition.
  It equals \<open>\<Prod>\<^sub>d k\<^sub>d\<close> exactly when the lookups of every combination all succeed and the
  product is below \<open>2 ^ 64\<close>: the bound of the loop is taken in \<^verbatim>\<open>size_t\<close>, so from
  \<open>2 ^ 64\<close> combinations on there are fewer noodles than combinations even when no
  lookup fails.
\<close>

theorem noodle_count:
  assumes "make_segmentation lib aut epsilon = Inr sg"
    and "segmentation_invariant sg"
    and "2 \<le> length (get_segments_raw sg)"
    and "print_afa lib aut sg variableLocations alph useBits = Inr afaOutput"
  shows "\<exists>noodles.
           noodlify lib aut epsilon variableLocations alph include_empty useBits
             = Inr (noodles, afaOutput)
           \<and> length noodles \<le> num_combinations (get_epsilon_depths sg)
           \<and> (length noodles = num_combinations (get_epsilon_depths sg) \<longleftrightarrow>
                num_combinations (get_epsilon_depths sg) < 2 ^ 64 \<and>
                (\<forall>index < num_combinations (get_epsilon_depths sg).
                   all_lookups_succeed
                     (segments_one_initial_final lib include_empty (get_num_of_states lib aut)
                        (get_segments_raw sg))
                     (get_num_of_states lib aut)
                     (combination (get_epsilon_depths sg) index)))
           \<and> ((\<exists>ts \<in> set (depth_transitions (get_epsilon_depths sg)). ts = []) \<longrightarrow> noodles = [])"
proof -
  let ?eps = "get_epsilon_depths sg"
  let ?m = "segments_one_initial_final lib include_empty (get_num_of_states lib aut)
              (get_segments_raw sg)"
  let ?N = "num_combinations ?eps"
  let ?P = "\<lambda>index. all_lookups_succeed ?m (get_num_of_states lib aut) (combination ?eps index)"
  let ?noodles = "enumerated ?m (get_num_of_states lib aut) (combination ?eps)
                    [0..<?N mod 2 ^ 64]"
  have r: "noodlify lib aut epsilon variableLocations alph include_empty useBits
             = Inr (?noodles, afaOutput)"
    using noodlify_general_path[OF assms] by simp
  have len: "length ?noodles = length (filter ?P [0..<?N mod 2 ^ 64])"
    by (simp add: enumerated_def)
  have le': "length ?noodles \<le> ?N mod 2 ^ 64"
    unfolding len by (metis length_filter_le length_upt minus_nat.diff_0)
  have le: "length ?noodles \<le> ?N"
    using le' mod_less_eq_dividend[of ?N "2 ^ 64"] by (rule order_trans)
  have eq: "length ?noodles = ?N \<longleftrightarrow> ?N < 2 ^ 64 \<and> (\<forall>index < ?N. ?P index)"
  proof (cases "?N < 2 ^ 64")
    case True
    then have m: "?N mod 2 ^ 64 = ?N" by simp
    have l: "length ?noodles = length (filter ?P [0..<?N])"
      unfolding m by (simp add: enumerated_def)
    have "length (filter ?P [0..<?N]) = length [0..<?N] \<longleftrightarrow> (\<forall>x \<in> set [0..<?N]. ?P x)"
      by (rule length_filter_eq_iff)
    with True show ?thesis unfolding l by auto
  next
    case False
    have "?N mod 2 ^ 64 < (2 :: nat) ^ 64" by simp
    with le' have "length ?noodles < 2 ^ 64" by (rule le_less_trans)
    with False show ?thesis by simp
  qed
  have empty: "(\<exists>ts \<in> set (depth_transitions ?eps). ts = []) \<longrightarrow> ?noodles = []"
  proof
    assume "\<exists>ts \<in> set (depth_transitions ?eps). ts = []"
    then have "0 \<in> set (map length (depth_transitions ?eps))" by force
    then have "?N = 0"
      using prod_list_zero_iff[of "map length (depth_transitions ?eps)"]
      by (auto simp: num_combinations_def)
    then show "?noodles = []" by (simp add: enumerated_def)
  qed
  from r le eq empty show ?thesis by blast
qed

text \<open>
  For the chain of 64 depths every lookup of every combination succeeds in the registry
  below, but the loop bound is \<open>0\<close>: the result has no noodle while \<open>\<Prod>\<^sub>d k\<^sub>d = 2 ^ 64\<close>.
\<close>

theorem noodle_count_counterexample:
  "num_combinations demo_chain_depths = 18446744073709551616
   \<and> (\<forall>index. all_lookups_succeed (\<lambda>key. Some demo_noodle_a) 195
                 (combination demo_chain_depths index))
   \<and> get_num_of_permutations demo_chain_depths = 0
   \<and> map_sum id length
        (noodles_loop (\<lambda>key. Some demo_noodle_a) 195 demo_chain_depths
           (get_num_of_permutations demo_chain_depths) 0 []) = Inr 0"
  using demo_chain_combinations
  by (simp add: demo_chain_permutations noodles_loop.simps all_lookups_succeed_def
        list_all_iff)

theorem noodle_count_witness:
  "make_segmentation demo_lib demo_aut 2 = Inr demo_sg
   \<and> segmentation_invariant demo_sg
   \<and> 2 \<le> length (get_segments_raw demo_sg)
   \<and> print_afa demo_lib demo_aut demo_sg [[0], [1], [2]] ([0, 1], 2) True = Inr demo_afa_bits
   \<and> num_combinations (get_epsilon_depths demo_sg) = 4
   \<and> (\<exists>noodles.
         noodlify demo_lib demo_aut 2 [[0], [1], [2]] ([0, 1], 2) False True
           = Inr (noodles, demo_afa_bits)
         \<and> length noodles \<le> 4 \<and> length noodles \<noteq> 4)
   \<and> \<not> all_lookups_succeed
          (segments_one_initial_final demo_lib False (get_num_of_states demo_lib demo_aut)
             (get_segments_raw demo_sg))
          (get_num_of_states demo_lib demo_aut)
          (combination (get_epsilon_depths demo_sg) 1)"
proof -
  have fail: "\<not> all_lookups_succeed
          (segments_one_initial_final demo_lib False (get_num_of_states demo_lib demo_aut)
             (get_segments_raw demo_sg))
          (get_num_of_states demo_lib demo_aut)
          (combination (get_epsilon_depths demo_sg) 1)"
    using demo_lookups by (simp only: demo_num_of_states_aut demo_registry) blast
  from noodle_count[OF demo_segmentation_aut demo_invariant demo_two_segments
         demo_print_afa_bits, of False]
  obtain noodles where
    n: "noodlify demo_lib demo_aut 2 [[0], [1], [2]] ([0, 1], 2) False True
          = Inr (noodles, demo_afa_bits)"
    and le: "length noodles \<le> num_combinations (get_epsilon_depths demo_sg)"
    and eq: "length noodles = num_combinations (get_epsilon_depths demo_sg) \<longleftrightarrow>
               num_combinations (get_epsilon_depths demo_sg) < 2 ^ 64 \<and>
               (\<forall>index < num_combinations (get_epsilon_depths demo_sg). all_lookups_succeed
                  (segments_one_initial_final demo_lib False (get_num_of_states demo_lib demo_aut)
                     (get_segments_raw demo_sg))
                  (get_num_of_states demo_lib demo_aut)
                  (combination (get_epsilon_depths demo_sg) index))"
    by blast
  from eq fail have "length noodles \<noteq> 4"
    unfolding demo_num_combinations by (metis one_less_numeral_iff semiring_norm(76))
  moreover from le have "length noodles \<le> 4" unfolding demo_num_combinations .
  ultimately show ?thesis
    using n fail demo_segmentation_aut demo_invariant demo_two_segments demo_num_combinations
      demo_print_afa_bits
    by blast
qed

section \<open>The final formula of the AFA\<close>

lemma fold_err_append:
  "fold_err f s (xs @ ys) = (case fold_err f s xs of Inl e \<Rightarrow> Inl e | Inr s' \<Rightarrow> fold_err f s' ys)"
  by (induction xs arbitrary: s) (auto split: sum.splits)

lemma fold_err_concat:
  "fold_err (\<lambda>s x. fold_err f s (g x)) s xs = fold_err f s (concat (map g xs))"
  by (induction xs arbitrary: s) (auto simp: fold_err_append split: sum.splits)

lemma init_state_steps:
  "initStateToPreviousNonFinalStates (foldl (init_state_step old) st inits)
     = foldl (\<lambda>m init. AList.update init (last (segmentReachableStates st)) m)
         (initStateToPreviousNonFinalStates st) inits
   \<and> segmentReachableStates (foldl (init_state_step old) st inits) = segmentReachableStates st"
  by (induction inits arbitrary: st) (simp_all add: init_state_step_def)

lemma segment_step_prev:
  "initStateToPreviousNonFinalStates (segment_step lib st seg)
     = foldl (\<lambda>m init. AList.update init (last (segmentReachableStates st)) m)
         (initStateToPreviousNonFinalStates st) (initialstates seg)"
  "segmentReachableStates (segment_step lib st seg)
     = segmentReachableStates st @ [get_reachable_states lib seg]"
  using init_state_steps[of "initialStatesNoodles st" "st\<lparr>initialStatesNoodles := []\<rparr>" "initialstates seg"]
  by (simp_all add: segment_step_def Let_def)

lemma segment_steps_prev:
  "initStateToPreviousNonFinalStates (foldl (segment_step lib) st rest)
     = prev_map lib (last (segmentReachableStates st)) rest (initStateToPreviousNonFinalStates st)
   \<and> segmentReachableStates (foldl (segment_step lib) st rest)
     = segmentReachableStates st @ map (get_reachable_states lib) rest"
  by (induction rest arbitrary: st) (simp_all add: segment_step_prev)

lemma updates_keys:
  "fst ` set (foldl (\<lambda>m init. AList.update init v m) m inits) = fst ` set m \<union> set inits"
  by (induction inits arbitrary: m) (simp_all add: AList.dom_update Un_ac)

lemma updates_distinct:
  "distinct (map fst m) \<Longrightarrow> distinct (map fst (foldl (\<lambda>m init. AList.update init v m) m inits))"
  by (induction inits arbitrary: m) (auto simp: AList.distinct_update)

lemma updates_map_of:
  "map_of (foldl (\<lambda>m init. AList.update init v m) m inits) i
     = (if i \<in> set inits then Some v else map_of m i)"
  by (induction inits arbitrary: m) (auto simp: AList.update_conv')

lemma prev_map_keys:
  "fst ` set (prev_map lib prev rest m)
     = fst ` set m \<union> (\<Union>seg \<in> set rest. set (initialstates seg))"
  by (induction rest arbitrary: prev m) (simp_all add: updates_keys Un_ac)

lemma prev_map_distinct:
  "distinct (map fst m) \<Longrightarrow> distinct (map fst (prev_map lib prev rest m))"
  by (induction rest arbitrary: prev m) (auto simp: updates_distinct)

lemma prev_map_other:
  "\<forall>seg \<in> set rest. i \<notin> set (initialstates seg) \<Longrightarrow>
   map_of (prev_map lib prev rest m) i = map_of m i"
  by (induction rest arbitrary: prev m) (auto simp: updates_map_of)

lemma prev_map_last:
  assumes "j < length rest" "i \<in> set (initialstates (rest ! j))"
    and "\<forall>j'. j < j' \<and> j' < length rest \<longrightarrow> i \<notin> set (initialstates (rest ! j'))"
  shows "map_of (prev_map lib prev rest m) i
           = Some (if j = 0 then prev else get_reachable_states lib (rest ! (j - 1)))"
  using assms
proof (induction rest arbitrary: prev m j)
  case Nil
  then show ?case by simp
next
  case (Cons seg rest)
  show ?case
  proof (cases j)
    case 0
    have "\<forall>s \<in> set rest. i \<notin> set (initialstates s)"
    proof
      fix s assume "s \<in> set rest"
      then obtain k where "k < length rest" "rest ! k = s" by (auto simp: in_set_conv_nth)
      with Cons.prems(3)[rule_format, of "Suc k"] 0 show "i \<notin> set (initialstates s)" by auto
    qed
    with 0 Cons.prems(2) show ?thesis
      by (simp add: prev_map_other updates_map_of)
  next
    case (Suc j0)
    have later: "\<forall>j'. j0 < j' \<and> j' < length rest \<longrightarrow> i \<notin> set (initialstates (rest ! j'))"
    proof (intro allI impI)
      fix j' assume "j0 < j' \<and> j' < length rest"
      with Cons.prems(3)[rule_format, of "Suc j'"] Suc show "i \<notin> set (initialstates (rest ! j'))"
        by auto
    qed
    from Cons.prems Suc have "j0 < length rest" "i \<in> set (initialstates (rest ! j0))" by auto
    from Cons.IH[OF this later] Suc show ?thesis
      by (cases j0) simp_all
  qed
qed

lemma remove_previous_final_Inr:
  assumes "remove_previous_final m t = Inr m'"
  shows "map fst m' = map fst m"
    and "map_of m' i = (if i = tgt t then map_option (remove1 (src t)) (map_of m i) else map_of m i)"
proof -
  from assms obtain states where st: "map_of m (tgt t) = Some states"
    and m': "m' = AList.update (tgt t) (remove1 (src t) states) m"
    by (auto simp: remove_previous_final_def split: option.splits if_splits)
  from st have "tgt t \<in> fst ` set m" by (meson domI dom_map_of_conv_image_fst[THEN equalityD1, THEN subsetD])
  then show "map fst m' = map fst m" by (simp add: m' AList.update_keys)
  show "map_of m' i = (if i = tgt t then map_option (remove1 (src t)) (map_of m i) else map_of m i)"
    using st by (simp add: m' AList.update_conv')
qed

lemma remove_all_Inr:
  assumes "fold_err remove_previous_final m ts = Inr m'"
  shows "map fst m' = map fst m \<and>
         (\<forall>i. map_of m' i = map_option (\<lambda>l. foldl (\<lambda>l s. remove1 s l) l (map src (filter (\<lambda>t. tgt t = i) ts)))
                              (map_of m i))"
  using assms
proof (induction ts arbitrary: m)
  case Nil
  then show ?case by (simp add: option.map_ident)
next
  case (Cons t ts)
  from Cons.prems obtain m1 where m1: "remove_previous_final m t = Inr m1"
    and rest: "fold_err remove_previous_final m1 ts = Inr m'"
    by (auto split: sum.splits)
  note a = remove_previous_final_Inr[OF m1]
  from Cons.IH[OF rest] a(1) have keys: "map fst m' = map fst m" by simp
  have "map_of m' i = map_option (\<lambda>l. foldl (\<lambda>l s. remove1 s l) l (map src (filter (\<lambda>t. tgt t = i) (t # ts))))
                              (map_of m i)" for i
    using Cons.IH[OF rest] a(2)[of i] by (cases "map_of m i") auto
  with keys show ?case by blast
qed

lemma foldl_remove1_filter:
  "distinct l \<Longrightarrow> foldl (\<lambda>l s. remove1 s l) l ss = filter (\<lambda>x. x \<notin> set ss) l"
proof (induction ss arbitrary: l)
  case Nil
  then show ?case by simp
next
  case (Cons s ss)
  have "remove1 s l = filter (\<lambda>x. x \<noteq> s) l"
    using Cons.prems by (simp add: distinct_remove1_removeAll removeAll_filter_not_eq) metis
  moreover have "distinct (remove1 s l)" using Cons.prems by simp
  ultimately show ?case using Cons.IH[of "remove1 s l"] by (simp add: conj_commute)
qed

lemma print_trans_from_appends:
  "\<exists>suffix. fst (print_trans_from useBits nb varNum isFirst trs acc) = fst acc @ suffix"
proof (induction trs arbitrary: isFirst acc)
  case Nil
  then show ?case by simp
next
  case (Cons tran rest)
  obtain sym rs where r: "remapSymbol useBits nb (symbol tran) varNum (snd acc) = (sym, rs)"
    by (cases "remapSymbol useBits nb (symbol tran) varNum (snd acc)")
  from Cons.IH[of False "(fst acc @ (if isFirst then [] else '' | '')
              @ ''('' @ sym @ '' & (''
              @ print_separated '' | '' print_q True (states_to tran) @ ''))'', rs)"]
  show ?case by (auto simp: r)
qed

lemma print_transitions_of_state_appends:
  "\<exists>suffix. fst (print_transitions_of_state lib useBits nb varNum varAut acc s) = fst acc @ suffix"
proof (cases "length (get_transitions_from lib varAut s) = 0")
  case True
  then show ?thesis by (simp add: print_transitions_of_state_def)
next
  case False
  from print_trans_from_appends[of useBits nb varNum True "get_transitions_from lib varAut s"
         "(fst acc @ print_q s @ '' '', snd acc)"]
  show ?thesis using False by (auto simp: print_transitions_of_state_def Let_def)
qed

lemma foldl_appends:
  assumes "\<And>acc x. \<exists>suffix. fst (f acc x) = fst acc @ suffix"
  shows "\<exists>suffix. fst (foldl f acc xs) = fst acc @ (suffix :: string)"
proof (induction xs arbitrary: acc)
  case Nil
  then show ?case by simp
next
  case (Cons x xs)
  from assms[of acc x] obtain s1 where "fst (f acc x) = fst acc @ s1" by blast
  moreover from Cons.IH[of "f acc x"] obtain s2 where "fst (foldl f (f acc x) xs) = fst (f acc x) @ s2"
    by blast
  ultimately show ?case by simp
qed

lemma fold_err_appends:
  assumes "\<And>acc x acc'. f acc x = Inr acc' \<Longrightarrow> \<exists>suffix. fst acc' = fst acc @ suffix"
    and "fold_err f acc xs = Inr acc'"
  shows "\<exists>suffix. fst acc' = fst acc @ (suffix :: string)"
  using assms(2)
proof (induction xs arbitrary: acc)
  case Nil
  then show ?case by simp
next
  case (Cons x xs)
  from Cons.prems obtain a1 where a1: "f acc x = Inr a1" and rest: "fold_err f a1 xs = Inr acc'"
    by (auto split: sum.splits)
  from assms(1)[OF a1] obtain s1 where "fst a1 = fst acc @ s1" by blast
  moreover from Cons.IH[OF rest] obtain s2 where "fst acc' = fst a1 @ s2" by blast
  ultimately show ?case by simp
qed

lemma print_var_location_appends:
  assumes "print_var_location lib useBits nb segments reachable varNum acc varLoc = Inr acc'"
  shows "\<exists>suffix. fst acc' = fst acc @ suffix"
proof -
  from assms have "acc' = foldl (print_transitions_of_state lib useBits nb varNum (segments ! varLoc))
                  acc (reachable ! varLoc)"
    by (auto simp: print_var_location_def split: if_splits)
  then show ?thesis
    using foldl_appends[of "print_transitions_of_state lib useBits nb varNum (segments ! varLoc)",
            OF print_transitions_of_state_appends] by simp
qed

lemma print_transitions_appends:
  assumes "print_transitions lib useBits nb segments reachable variableLocations acc = Inr acc'"
  shows "\<exists>suffix. fst acc' = fst acc @ suffix"
  using assms unfolding print_transitions_def
  by (rule fold_err_appends[rotated]) (erule fold_err_appends[rotated], erule print_var_location_appends)

lemma collect_initial_states_Inr:
  assumes "collect_initial_states lib segments = Inr st"
  shows "segments \<noteq> []"
    and "initStateToPreviousNonFinalStates st
           = prev_map lib (get_reachable_states lib (hd segments)) (tl segments) []"
  using assms segment_steps_prev[of lib _ "tl segments"]
  by (auto simp: collect_initial_states_def split: list.splits)

lemma print_previous_nonfinal_conjuncts:
  "concat (map print_previous_nonfinal visited)
     = concat (map entry_conjunct (filter (\<lambda>elem. snd elem \<noteq> []) visited))"
proof -
  have n: "print_not_state = (\<lambda>s. ''!q'' @ show_nat s)"
    by (rule ext) (simp add: print_not_state_def)
  show ?thesis
    by (induction visited) (simp_all add: print_previous_nonfinal_def entry_conjunct_def n)
qed

lemma collect_initial_states_last:
  assumes "collect_initial_states lib segments = Inr st"
  shows "last (segmentReachableStates st) = get_reachable_states lib (last segments)"
proof -
  from assms have ne: "segments \<noteq> []"
    by (rule collect_initial_states_Inr(1))
  from assms segment_steps_prev[of lib _ "tl segments"]
  have "segmentReachableStates st = map (get_reachable_states lib) segments"
    by (auto simp: collect_initial_states_def split: list.splits)
  with ne show ?thesis by (simp add: last_map)
qed

text \<open>
  C3 (amended).  When the printer completes (the reachable-state sets hold no state
  twice, as \<^verbatim>\<open>StateSet\<close>s do, and the iteration of the \<^verbatim>\<open>unordered_map\<close> visits every entry
  once): the table \<^verbatim>\<open>initStateToPreviousNonFinalStates\<close> has one entry for every initial
  state of the segments after the first; for such a state \<open>i\<close>, with \<open>j\<close> the last segment
  that has \<open>i\<close> as an initial state, the entry is
  \<open>P(i) = (states reachable in segment j - 1) \<setminus> {src | (src, \<epsilon>, tgt) \<in> epsilonDepths, tgt = i}\<close>,
  in the order of the reachable set.  The text written starts with the header and the
  \<open>%Initial\<close> line; then comes the \<open>%Final\<close> line, which consists of the formula over the
  non-final states of the last segment followed by the conjunct
  \<open>& (!qi' | (!qs1 & !qs2 \<dots>))\<close> over the states of \<open>P(i)\<close> for every entry with a nonempty
  \<open>P(i)\<close>, and for no other entry, in the order of the iteration.
\<close>

theorem previous_nonfinal_states:
  assumes printed: "print_afa lib aut sg variableLocations alph useBits = Inr afaOutput"
    and dist: "\<forall>seg \<in> set (get_segments_raw sg). distinct (get_reachable_states lib seg)"
    and once: "\<forall>m. mset (unordered_map_order lib m) = mset m"
  shows "\<exists>st previousNonFinal after.
           collect_initial_states lib (get_segments_raw sg) = Inr st \<and>
           remove_epsilon_sources (get_epsilon_depths sg) (initStateToPreviousNonFinalStates st)
             = Inr previousNonFinal \<and>
           distinct (map fst previousNonFinal) \<and>
           set (map fst previousNonFinal)
             = (\<Union>seg \<in> set (tl (get_segments_raw sg)). set (initialstates seg)) \<and>
           (\<forall>i j. previous_segment_reachable lib (get_segments_raw sg) i j \<longrightarrow>
              map_of previousNonFinal i
                = Some (filter (\<lambda>s. s \<notin> set (epsilon_sources (get_epsilon_depths sg) i))
                          (get_reachable_states lib (get_segments_raw sg ! (j - 1))))) \<and>
           mset (unordered_map_order lib previousNonFinal) = mset previousNonFinal \<and>
           afaOutput =
             print_header useBits
             @ print_initial aut (initialStatesNoodles st)
             @ ''%Final ''
             @ (if stateSetMinus (get_reachable_states lib (last (get_segments_raw sg)))
                     (finalstates (last (get_segments_raw sg))) = []
                then ''true''
                else ''('' @ print_separated '' & '' (\<lambda>s. ''!q'' @ show_nat s) True
                              (stateSetMinus (get_reachable_states lib (last (get_segments_raw sg)))
                                 (finalstates (last (get_segments_raw sg))))
                     @ '')'')
             @ concat (map entry_conjunct
                         (filter (\<lambda>elem. snd elem \<noteq> [])
                            (unordered_map_order lib previousNonFinal)))
             @ endl
             @ after"
proof -
  let ?segs = "get_segments_raw sg" and ?eps = "get_epsilon_depths sg"
  from printed obtain st where st: "collect_initial_states lib ?segs = Inr st"
    by (auto simp: print_afa_def Let_def split: sum.splits)
  from printed st obtain pm where
    pm: "remove_epsilon_sources ?eps (initStateToPreviousNonFinalStates st) = Inr pm"
    by (auto simp: print_afa_def Let_def split: sum.splits)
  from printed st pm obtain nb where nb: "compute_neededBits (length (get_symbols lib alph)) = Inr nb"
    by (auto simp: print_afa_def Let_def split: sum.splits)
  let ?nonFinal = "stateSetMinus (get_reachable_states lib (last ?segs)) (finalstates (last ?segs))"
  let ?start = "print_header useBits @ print_initial aut (initialStatesNoodles st)
                @ print_final ?nonFinal (unordered_map_order lib pm)"
  from printed st pm nb obtain acc where
    acc: "print_transitions lib useBits nb ?segs (segmentReachableStates st) variableLocations
            (?start, \<lparr>symbolRemapping = Map.empty, newSymbol = 0\<rparr>) = Inr acc"
    and out: "afaOutput = fst acc @ concat (map print_stub (allSegmentsInitialStates st)) @ print_marker"
    by (auto simp: print_afa_def Let_def collect_initial_states_last[OF st] split: sum.splits)
  from print_transitions_appends[OF acc] obtain suffix where "fst acc = ?start @ suffix" by auto
  with out have whole: "afaOutput = ?start @ suffix
                          @ concat (map print_stub (allSegmentsInitialStates st)) @ print_marker"
    by simp
  have n: "print_not_state = (\<lambda>s. ''!q'' @ show_nat s)"
    by (rule ext) (simp add: print_not_state_def)
  have line: "print_final ?nonFinal (unordered_map_order lib pm)
                = ''%Final ''
                  @ (if ?nonFinal = [] then ''true''
                     else ''('' @ print_separated '' & '' (\<lambda>s. ''!q'' @ show_nat s) True ?nonFinal
                          @ '')'')
                  @ concat (map entry_conjunct
                              (filter (\<lambda>elem. snd elem \<noteq> []) (unordered_map_order lib pm)))
                  @ endl"
    unfolding print_final_def print_previous_nonfinal_conjuncts n by simp
  have shape: "\<exists>after.
      afaOutput = print_header useBits
             @ print_initial aut (initialStatesNoodles st)
             @ ''%Final ''
             @ (if ?nonFinal = [] then ''true''
                else ''('' @ print_separated '' & '' (\<lambda>s. ''!q'' @ show_nat s) True ?nonFinal
                     @ '')'')
             @ concat (map entry_conjunct
                         (filter (\<lambda>elem. snd elem \<noteq> []) (unordered_map_order lib pm)))
             @ endl
             @ after"
    unfolding whole line by (intro exI[of _ "suffix @ concat (map print_stub (allSegmentsInitialStates st)) @ print_marker"]) simp
  note c = collect_initial_states_Inr[OF st]
  let ?m0 = "initStateToPreviousNonFinalStates st"
  let ?ts = "concat (map snd ?eps)"
  from pm have "fold_err remove_previous_final ?m0 ?ts = Inr pm"
    by (simp add: remove_epsilon_sources_def fold_err_concat)
  note r = remove_all_Inr[OF this]
  have keys0: "fst ` set ?m0 = (\<Union>seg \<in> set (tl ?segs). set (initialstates seg))"
    unfolding c(2) by (simp add: prev_map_keys)
  have d0: "distinct (map fst ?m0)"
    unfolding c(2) by (rule prev_map_distinct) simp
  have keys: "set (map fst pm) = (\<Union>seg \<in> set (tl ?segs). set (initialstates seg))"
    using r keys0 by (metis set_map)
  have d: "distinct (map fst pm)" using r d0 by simp
  have val: "map_of pm i
                = Some (filter (\<lambda>s. s \<notin> set (epsilon_sources ?eps i))
                          (get_reachable_states lib (?segs ! (j - 1))))"
    if p: "previous_segment_reachable lib ?segs i j" for i j
  proof -
    from c(1) obtain seg0 rest where segs: "?segs = seg0 # rest" by (cases ?segs) auto
    from p obtain j0 where j: "j = Suc j0" by (cases j) (auto simp: previous_segment_reachable_def)
    from p have a: "j0 < length rest" "i \<in> set (initialstates (rest ! j0))"
      unfolding previous_segment_reachable_def segs j by simp_all
    from p have later: "\<forall>j' \<in> set [Suc j..<length ?segs]. i \<notin> set (initialstates (?segs ! j'))"
      unfolding previous_segment_reachable_def list_all_iff by blast
    have a3: "\<forall>j'. j0 < j' \<and> j' < length rest \<longrightarrow> i \<notin> set (initialstates (rest ! j'))"
    proof (intro allI impI)
      fix j' assume "j0 < j' \<and> j' < length rest"
      then have "Suc j' \<in> set [Suc j..<length ?segs]" by (auto simp: segs j)
      with later have "i \<notin> set (initialstates (?segs ! Suc j'))" by blast
      then show "i \<notin> set (initialstates (rest ! j'))" by (simp add: segs)
    qed
    have "map_of ?m0 i = Some (get_reachable_states lib (?segs ! (j - 1)))"
      unfolding c(2) using prev_map_last[OF a a3, of lib "get_reachable_states lib seg0" "[]"]
      by (cases j0) (simp_all add: segs j)
    moreover have "?segs ! (j - 1) \<in> set ?segs"
      using p by (auto simp: previous_segment_reachable_def intro!: nth_mem)
    then have "distinct (get_reachable_states lib (?segs ! (j - 1)))"
      using dist by blast
    ultimately show ?thesis
      using r by (simp add: foldl_remove1_filter epsilon_sources_def)
  qed
  from once have visit: "mset (unordered_map_order lib pm) = mset pm" by simp
  from shape obtain after where
    "afaOutput = print_header useBits
             @ print_initial aut (initialStatesNoodles st)
             @ ''%Final ''
             @ (if ?nonFinal = [] then ''true''
                else ''('' @ print_separated '' & '' (\<lambda>s. ''!q'' @ show_nat s) True ?nonFinal
                     @ '')'')
             @ concat (map entry_conjunct
                         (filter (\<lambda>elem. snd elem \<noteq> []) (unordered_map_order lib pm)))
             @ endl
             @ after" ..
  with st pm d keys val visit show ?thesis
    by (intro exI[of _ st] exI[of _ pm] exI[of _ after] conjI allI impI) simp_all
qed

text \<open>
  The specification subtracts the targets \<open>{tgt | (src, \<epsilon>, tgt) \<in> epsilonDepths, tgt = i}\<close>,
  that is \<open>i\<close> itself.  For \<open>demo_aut\<close> the code computes \<open>P(3) = [0, 2]\<close>: the source \<open>1\<close> of
  \<open>1 -\<epsilon>\<rightarrow> 3\<close> is removed from the reachable states \<open>[0, 1, 2]\<close> of the first segment, and
  the conjunct printed is \<open>(!q3' | (!q0 & !q2))\<close>; the set of the specification is
  \<open>[0, 1, 2]\<close>, as \<open>3\<close> is not among these states.
\<close>

theorem previous_nonfinal_states_counterexample:
  "collect_initial_states demo_lib (get_segments_raw demo_sg) = Inr demo_init
   \<and> remove_epsilon_sources (get_epsilon_depths demo_sg)
        (initStateToPreviousNonFinalStates demo_init)
       = Inr [(3, [0, 2]), (4, [0, 1]), (7, [3, 4])]
   \<and> print_previous_nonfinal (3, [0, 2])
       = '' & (!q3'' @ prime @ '' | (!q0 & !q2))''
   \<and> filter (\<lambda>s. s \<notin> set (spec_epsilon_targets (get_epsilon_depths demo_sg) 3))
        (get_reachable_states demo_lib (get_segments_raw demo_sg ! 0))
       = [0, 1, 2]"
proof -
  have "print_previous_nonfinal (3, [0, 2]) = '' & (!q3'' @ prime @ '' | (!q0 & !q2))''"
    by code_simp
  moreover have "filter (\<lambda>s. s \<notin> set (spec_epsilon_targets (get_epsilon_depths demo_sg) 3))
        (get_reachable_states demo_lib (get_segments_raw demo_sg ! 0))
       = [0, 1, 2]"
    by code_simp
  ultimately show ?thesis using demo_collect demo_remove by blast
qed

lemma demo_once: "\<forall>m. mset (unordered_map_order demo_lib m) = mset m"
  by (simp add: demo_lib_def)

lemma demo_final_line:
  "print_header True
   @ print_initial demo_aut (initialStatesNoodles demo_init)
   @ ''%Final ''
   @ (if stateSetMinus (get_reachable_states demo_lib (last (get_segments_raw demo_sg)))
           (finalstates (last (get_segments_raw demo_sg))) = []
      then ''true''
      else ''('' @ print_separated '' & '' (\<lambda>s. ''!q'' @ show_nat s) True
                    (stateSetMinus (get_reachable_states demo_lib (last (get_segments_raw demo_sg)))
                       (finalstates (last (get_segments_raw demo_sg))))
           @ '')'')
   @ concat (map entry_conjunct
               (filter (\<lambda>elem. snd elem \<noteq> [])
                  (unordered_map_order demo_lib [(3, [0, 2]), (4, [0, 1]), (7, [3, 4])])))
   @ endl
   = ''@AFA-bits'' @ endl
     @ ''%Initial (q0) & ((q3 & q3'' @ prime @ '' & q7 & q7'' @ prime
       @ '') | (q4 & q4'' @ prime @ '' & q7 & q7'' @ prime @ ''))'' @ endl
     @ ''%Final (!q7) & (!q7'' @ prime @ '' | (!q3 & !q4)) & (!q4'' @ prime
       @ '' | (!q0 & !q1)) & (!q3'' @ prime @ '' | (!q0 & !q2))'' @ endl"
  by code_simp

text \<open>
  For \<open>demo_aut\<close> the entries are those of the states \<open>3\<close>, \<open>4\<close> and \<open>7\<close>, visited from the
  newest to the oldest.
\<close>

theorem previous_nonfinal_states_witness:
  "print_afa demo_lib demo_aut demo_sg [[0], [1], [2]] ([0, 1], 2) True = Inr demo_afa_bits
   \<and> list_all (\<lambda>seg. distinct (get_reachable_states demo_lib seg)) (get_segments_raw demo_sg)
   \<and> (\<forall>m. mset (unordered_map_order demo_lib m) = mset m)
   \<and> previous_segment_reachable demo_lib (get_segments_raw demo_sg) 3 1
   \<and> epsilon_sources (get_epsilon_depths demo_sg) 3 = [1]
   \<and> get_reachable_states demo_lib (get_segments_raw demo_sg ! 0) = [0, 1, 2]
   \<and> (\<exists>previousNonFinal after.
         remove_epsilon_sources (get_epsilon_depths demo_sg)
              (initStateToPreviousNonFinalStates demo_init) = Inr previousNonFinal
         \<and> map_of previousNonFinal 3 = Some [0, 2]
         \<and> demo_afa_bits
             = ''@AFA-bits'' @ endl
               @ ''%Initial (q0) & ((q3 & q3'' @ prime @ '' & q7 & q7'' @ prime
                 @ '') | (q4 & q4'' @ prime @ '' & q7 & q7'' @ prime @ ''))'' @ endl
               @ ''%Final (!q7) & (!q7'' @ prime @ '' | (!q3 & !q4)) & (!q4'' @ prime
                 @ '' | (!q0 & !q1)) & (!q3'' @ prime @ '' | (!q0 & !q2))'' @ endl
               @ after)"
proof -
  have p: "previous_segment_reachable demo_lib (get_segments_raw demo_sg) 3 1"
    by code_simp
  have e: "epsilon_sources (get_epsilon_depths demo_sg) 3 = [1]"
    by code_simp
  have r: "get_reachable_states demo_lib (get_segments_raw demo_sg ! 0) = [0, 1, 2]"
    by code_simp
  from previous_nonfinal_states[OF demo_print_afa_bits demo_reachable_distinct demo_once]
  obtain st previousNonFinal after where
    a: "collect_initial_states demo_lib (get_segments_raw demo_sg) = Inr st"
      "remove_epsilon_sources (get_epsilon_depths demo_sg)
              (initStateToPreviousNonFinalStates st) = Inr previousNonFinal"
    and v: "\<forall>i j. previous_segment_reachable demo_lib (get_segments_raw demo_sg) i j \<longrightarrow>
              map_of previousNonFinal i
                = Some (filter (\<lambda>s. s \<notin> set (epsilon_sources (get_epsilon_depths demo_sg) i))
                          (get_reachable_states demo_lib (get_segments_raw demo_sg ! (j - 1))))"
    and t: "demo_afa_bits =
             print_header True
             @ print_initial demo_aut (initialStatesNoodles st)
             @ ''%Final ''
             @ (if stateSetMinus (get_reachable_states demo_lib (last (get_segments_raw demo_sg)))
                     (finalstates (last (get_segments_raw demo_sg))) = []
                then ''true''
                else ''('' @ print_separated '' & '' (\<lambda>s. ''!q'' @ show_nat s) True
                              (stateSetMinus (get_reachable_states demo_lib (last (get_segments_raw demo_sg)))
                                 (finalstates (last (get_segments_raw demo_sg))))
                     @ '')'')
             @ concat (map entry_conjunct
                         (filter (\<lambda>elem. snd elem \<noteq> [])
                            (unordered_map_order demo_lib previousNonFinal)))
             @ endl
             @ after"
    by blast
  from a(1) demo_collect have st: "st = demo_init" by simp
  from a(2) demo_remove have pn: "previousNonFinal = [(3, [0, 2]), (4, [0, 1]), (7, [3, 4])]"
    unfolding st by simp
  from v[rule_format, OF p] have m: "map_of previousNonFinal 3 = Some [0, 2]"
    by (simp add: e r)
  from t have "demo_afa_bits
             = (print_header True
             @ print_initial demo_aut (initialStatesNoodles demo_init)
             @ ''%Final ''
             @ (if stateSetMinus (get_reachable_states demo_lib (last (get_segments_raw demo_sg)))
                     (finalstates (last (get_segments_raw demo_sg))) = []
                then ''true''
                else ''('' @ print_separated '' & '' (\<lambda>s. ''!q'' @ show_nat s) True
                              (stateSetMinus (get_reachable_states demo_lib (last (get_segments_raw demo_sg)))
                                 (finalstates (last (get_segments_raw demo_sg))))
                     @ '')'')
             @ concat (map entry_conjunct
                         (filter (\<lambda>elem. snd elem \<noteq> [])
                            (unordered_map_order demo_lib [(3, [0, 2]), (4, [0, 1]), (7, [3, 4])])))
             @ endl)
             @ after"
    unfolding st pn by (simp only: append_assoc)
  then have "demo_afa_bits
             = (''@AFA-bits'' @ endl
               @ ''%Initial (q0) & ((q3 & q3'' @ prime @ '' & q7 & q7'' @ prime
                 @ '') | (q4 & q4'' @ prime @ '' & q7 & q7'' @ prime @ ''))'' @ endl
               @ ''%Final (!q7) & (!q7'' @ prime @ '' | (!q3 & !q4)) & (!q4'' @ prime
                 @ '' | (!q0 & !q1)) & (!q3'' @ prime @ '' | (!q0 & !q2))'' @ endl)
               @ after"
    by (simp only: demo_final_line)
  then have "demo_afa_bits
             = ''@AFA-bits'' @ endl
               @ ''%Initial (q0) & ((q3 & q3'' @ prime @ '' & q7 & q7'' @ prime
                 @ '') | (q4 & q4'' @ prime @ '' & q7 & q7'' @ prime @ ''))'' @ endl
               @ ''%Final (!q7) & (!q7'' @ prime @ '' | (!q3 & !q4)) & (!q4'' @ prime
                 @ '' | (!q0 & !q1)) & (!q3'' @ prime @ '' | (!q0 & !q2))'' @ endl
               @ after"
    by (simp only: append_assoc)
  with a(2) m p e r demo_print_afa_bits demo_reachable_distinct demo_once show ?thesis
    unfolding st by (auto simp: list_all_iff)
qed

section \<open>The encoding of the symbols\<close>

lemma clz_from_bounds:
  "w \<noteq> 0 \<Longrightarrow> unat w < 2 ^ k \<Longrightarrow>
     clz_from k w < k \<and> 2 ^ (k - 1 - clz_from k w) \<le> unat w \<and> unat w < 2 ^ (k - clz_from k w)"
proof (induction k)
  case 0
  then have "unat w = 0" by simp
  with 0 show ?case by (simp add: unat_eq_0)
next
  case (Suc k)
  show ?case
  proof (cases "bit w k")
    case True
    then have "bit (unat w) k" by (simp add: bit_unsigned_iff)
    then have "2 ^ k \<le> unat w"
      by (metis bit_iff_odd div_less even_zero not_le)
    with True Suc.prems show ?thesis by simp
  next
    case False
    then have nb: "\<not> bit (unat w) k" by (simp add: bit_unsigned_iff)
    have "take_bit (Suc k) (unat w) = unat w"
      using Suc.prems(2) by (simp add: take_bit_nat_eq_self_iff)
    with nb have "take_bit k (unat w) = unat w"
      by (simp add: take_bit_Suc_from_most)
    then have "unat w < 2 ^ k"
      by (simp add: take_bit_nat_eq_self_iff)
    from Suc.IH[OF Suc.prems(1) this] False show ?thesis
      by (auto simp: Suc_diff_le less_imp_le_nat)
  qed
qed

lemma compute_neededBits_ceillog2:
  assumes "2 \<le> n" "n \<le> 2 ^ 32"
  shows "compute_neededBits n = Inr (ceillog2 n)"
proof -
  let ?w = "word_of_nat (n - 1) :: 32 word"
  have "unat ?w = (n - 1) mod 2 ^ LENGTH(32)" by (rule unat_of_nat)
  also have "\<dots> = n - 1" using assms by (intro mod_less) simp
  finally have u: "unat ?w = n - 1" .
  with assms have "unat ?w \<noteq> 0" by simp
  then have nz: "?w \<noteq> 0" by (simp add: unat_0_iff)
  have "unat ?w < 2 ^ LENGTH(32)" by (rule unsigned_less)
  then have lt: "unat ?w < 2 ^ 32" by simp
  from clz_from_bounds[OF nz lt]
  have b: "clz_from 32 ?w < 32" "2 ^ (32 - 1 - clz_from 32 ?w) \<le> n - 1"
    "n - 1 < 2 ^ (32 - clz_from 32 ?w)"
    unfolding u by auto
  let ?h = "32 - clz_from 32 ?w"
  from b(1) have h: "32 - 1 - clz_from 32 ?w = ?h - 1" "0 < ?h" by auto
  have "n \<le> 2 ^ ?h" using b(3) by simp
  moreover have "2 ^ ?h < 2 * n"
  proof -
    have "(2::nat) ^ ?h = 2 * 2 ^ (?h - 1)"
      using h(2) by (metis power_eq_if less_numeral_extra(3))
    also have "\<dots> < 2 * n" using b(2) assms(1) unfolding h(1) by simp
    finally show ?thesis .
  qed
  ultimately have "ceillog2 n = ?h" by (rule ceillog2_eqI)
  with assms nz show ?thesis
    by (simp add: compute_neededBits_def builtin_clz_def)
qed

lemma compute_neededBits_small: "n \<le> 1 \<Longrightarrow> compute_neededBits n = Inr 1"
  by (simp add: compute_neededBits_def)

lemma compute_neededBits_range:
  "compute_neededBits n = Inr nb \<Longrightarrow> 1 \<le> nb \<and> nb \<le> 32"
proof -
  assume a: "compute_neededBits n = Inr nb"
  show ?thesis
  proof (cases "1 < n")
    case False
    with a show ?thesis by (simp add: compute_neededBits_def)
  next
    case True
    let ?w = "word_of_nat (n - 1) :: 32 word"
    from a True have nz: "?w \<noteq> 0" and nb: "nb = 32 - clz_from 32 ?w"
      by (auto simp: compute_neededBits_def builtin_clz_def split: if_splits)
    have "unat ?w < 2 ^ LENGTH(32)" by (rule unsigned_less)
  then have lt: "unat ?w < 2 ^ 32" by simp
    from clz_from_bounds[OF nz lt] have "clz_from 32 ?w < 32" by blast
    with nb show ?thesis by arith
  qed
qed

lemma print_separated_cong:
  "(\<And>x. x \<in> set xs \<Longrightarrow> f x = g x) \<Longrightarrow> print_separated sep f b xs = print_separated sep g b xs"
  by (induction xs arbitrary: b) simp_all

lemma print_bits_separated:
  "print_bits symBits startingBit i n
     = print_separated '' & ''
         (\<lambda>j. (if symBits ! (31 - j) = CHR ''0'' then ''!'' else []) @ ''a'' @ show_nat (startingBit + j))
         (i = 0) [i..<i + n]"
proof (induction n arbitrary: i)
  case 0
  then show ?case by simp
next
  case (Suc n)
  have upt: "[i..<i + Suc n] = i # [Suc i..<Suc i + n]" by (simp add: upt_conv_Cons)
  show ?case unfolding upt by (simp add: Suc.IH)
qed

lemma bitset32_to_string_nth:
  "j < 32 \<Longrightarrow> bitset32_to_string w ! (31 - j) = (if bit w j then CHR ''1'' else CHR ''0'')"
  by (simp add: bitset32_to_string_def)

lemma encode_symbol_little_endian:
  assumes "neededBits \<le> 32"
  shows "encode_symbol True neededBits remappedSymbol trackNum
           = little_endian_atoms neededBits remappedSymbol trackNum"
proof -
  have "print_separated '' & ''
         (\<lambda>j. (if bitset32_to_string (word_of_nat remappedSymbol) ! (31 - j) = CHR ''0'' then ''!'' else [])
               @ ''a'' @ show_nat (trackNum * neededBits + j))
         True [0..<neededBits]
        = print_separated '' & ''
         (\<lambda>i. (if bit remappedSymbol i then [] else ''!'') @ ''a'' @ show_nat (trackNum * neededBits + i))
         True [0..<neededBits]"
  proof (rule print_separated_cong)
    fix j assume "j \<in> set [0..<neededBits]"
    with assms have j: "j < 32" by simp
    then have "bit (word_of_nat remappedSymbol :: 32 word) j = bit remappedSymbol j"
      by (simp add: bit_of_nat_iff)
    with j show "(if bitset32_to_string (word_of_nat remappedSymbol) ! (31 - j) = CHR ''0'' then ''!'' else [])
               @ ''a'' @ show_nat (trackNum * neededBits + j)
          = (if bit remappedSymbol j then [] else ''!'') @ ''a'' @ show_nat (trackNum * neededBits + j)"
      by (simp add: bitset32_to_string_nth)
  qed
  then show ?thesis
    using print_bits_separated[of "bitset32_to_string (word_of_nat remappedSymbol)"
            "trackNum * neededBits" 0 neededBits]
    by (simp add: encode_symbol_def little_endian_atoms_def)
qed

text \<open>
  C4 (amended).  For an alphabet of \<open>n \<le> 2 ^ 32\<close> symbols the width is \<open>1\<close> when \<open>n \<le> 1\<close> and
  \<open>\<lceil>log\<^sub>2 n\<rceil>\<close> otherwise; whenever a width is computed it lies between 1 and 32, and the
  remapped symbol on track \<open>v\<close> is written as the atoms \<open>a\<^sub>v\<^sub>\<cdot>\<^sub>n\<^sub>+\<^sub>i\<close> for \<open>i = 0, 1, \<dots>\<close> joined by
  \<open>&\<close>, the atom \<open>i\<close> carrying bit \<open>i\<close> of the remapped symbol (least significant bit
  first), with \<open>!\<close> before an atom whose bit is \<open>0\<close>.
\<close>

theorem bit_encoding:
  "(n \<le> 2 ^ 32 \<longrightarrow> compute_neededBits n = Inr (if n \<le> 1 then 1 else ceillog2 n))
   \<and> (\<forall>neededBits. compute_neededBits n = Inr neededBits \<longrightarrow>
         1 \<le> neededBits \<and> neededBits \<le> 32
         \<and> encode_symbol True neededBits remappedSymbol trackNum
             = little_endian_atoms neededBits remappedSymbol trackNum)"
  using compute_neededBits_ceillog2[of n] compute_neededBits_small[of n]
    compute_neededBits_range[of n] encode_symbol_little_endian
  by (cases "n \<le> 1") auto

text \<open>
  As stated the claim fails twice.  The atoms are not big-endian: the remapped symbol \<open>1\<close>
  with two bits on track \<open>0\<close> is written \<open>a0 & !a1\<close>, and big-endian would be \<open>!a0 & a1\<close>.
  And for the empty alphabet the width is \<open>1\<close>, while \<open>\<lceil>log\<^sub>2 (max 1 0)\<rceil> = 0\<close>.
\<close>

theorem bit_encoding_counterexample:
  "encode_symbol True 2 1 0 = ''a0 & !a1''
   \<and> spec_big_endian_atoms 2 1 0 = ''!a0 & a1''
   \<and> compute_neededBits 0 = Inr 1
   \<and> ceillog2 (max 1 0) = 0"
proof -
  have "encode_symbol True 2 1 0 = ''a0 & !a1''" by code_simp
  moreover have "spec_big_endian_atoms 2 1 0 = ''!a0 & a1''" by code_simp
  ultimately show ?thesis by (simp add: compute_neededBits_def)
qed

theorem bit_encoding_witness:
  "(3 :: nat) \<le> 2 ^ 32 \<and> compute_neededBits 3 = Inr 2 \<and> ceillog2 3 = 2
   \<and> encode_symbol True 2 1 1 = little_endian_atoms 2 1 1
   \<and> little_endian_atoms 2 1 1 = ''a2 & !a3''"
proof -
  have c: "ceillog2 3 = 2" by (rule ceillog2_eqI) simp_all
  have l: "little_endian_atoms 2 1 1 = ''a2 & !a3''" by code_simp
  from bit_encoding[of 3 1 1] c l show ?thesis by simp
qed

section \<open>The remapping of the symbols\<close>

lemma index_of_append_in: "x \<in> set xs \<Longrightarrow> index_of (xs @ ys) x = index_of xs x"
  by (simp add: index_of_def takeWhile_append1)

lemma index_of_append_notin: "x \<notin> set xs \<Longrightarrow> index_of (xs @ [x]) x = length xs"
  unfolding index_of_def by (induction xs) auto

lemma foldl_add_seen_prefix: "\<exists>extra. foldl add_seen seen syms = seen @ extra"
proof (induction syms arbitrary: seen)
  case Nil
  then show ?case by simp
next
  case (Cons s syms)
  from Cons.IH[of "add_seen seen s"] show ?case
    by (auto simp: add_seen_def split: if_splits)
qed

lemma index_of_foldl_add_seen:
  "x \<in> set seen \<Longrightarrow> index_of (foldl add_seen seen syms) x = index_of seen x"
  using foldl_add_seen_prefix[of seen syms] by (auto simp: index_of_append_in)

lemma remapSymbol_seen:
  "s \<in> set seen \<Longrightarrow>
   remapSymbol useBits nb s track (remap_table seen)
     = (encode_symbol useBits nb (index_of seen s) track, remap_table seen)"
  by (simp add: remapSymbol_def remap_table_def)

lemma remapSymbol_new:
  "s \<notin> set seen \<Longrightarrow>
   remapSymbol useBits nb s track (remap_table seen)
     = (encode_symbol useBits nb (length seen) track, remap_table (seen @ [s]))"
  by (auto simp add: remapSymbol_def remap_table_def fun_eq_iff index_of_append_in index_of_append_notin)

lemma remapSymbol_add_seen:
  "remapSymbol useBits nb s track (remap_table seen)
     = (encode_symbol useBits nb (index_of (add_seen seen s) s) track,
        remap_table (add_seen seen s))"
  by (simp add: add_seen_def remapSymbol_seen remapSymbol_new index_of_append_notin)

lemma remap_calls_table:
  "remap_calls useBits nb calls (remap_table seen)
     = (map (\<lambda>call. encode_symbol useBits nb
                       (index_of (foldl add_seen seen (map fst calls)) (fst call)) (snd call))
          calls,
        remap_table (foldl add_seen seen (map fst calls)))"
proof (induction calls arbitrary: seen)
  case Nil
  then show ?case by simp
next
  case (Cons call calls)
  have "fst call \<in> set (add_seen seen (fst call))" by (simp add: add_seen_def)
  then have "index_of (foldl add_seen (add_seen seen (fst call)) (map fst calls)) (fst call)
               = index_of (add_seen seen (fst call)) (fst call)"
    by (rule index_of_foldl_add_seen)
  then show ?case
    by (simp add: remapSymbol_add_seen Cons.IH)
qed

lemma extends_iff: "extends final seen \<longleftrightarrow> (\<exists>extra. final = seen @ extra)"
  unfolding extends_def by (metis append_eq_conv_conj)

lemma extends_trans: "extends final b \<Longrightarrow> extends b a \<Longrightarrow> extends final a"
  by (auto simp: extends_iff)

lemma extends_foldl: "extends (foldl add_seen seen syms) seen"
  using foldl_add_seen_prefix[of seen syms] by (simp add: extends_iff)

lemma foldl_add_seen_append:
  "foldl add_seen seen (xs @ ys) = foldl add_seen (foldl add_seen seen xs) ys"
  by simp

lemma index_of_extends: "extends final seen \<Longrightarrow> x \<in> set seen \<Longrightarrow> index_of final x = index_of seen x"
  by (auto simp: extends_iff index_of_append_in)

lemma add_seen_mem: "s \<in> set (add_seen seen s)"
  by (simp add: add_seen_def)

lemma print_trans_from_render:
  assumes "extends final (foldl add_seen seen (map symbol trs))"
  shows "print_trans_from useBits nb varNum isFirst trs (out, remap_table seen)
           = (out @ print_separated '' | '' (render_tran (rank_encoding useBits nb final) varNum)
                      isFirst trs,
              remap_table (foldl add_seen seen (map symbol trs)))"
  using assms
proof (induction trs arbitrary: seen out isFirst)
  case Nil
  then show ?case by simp
next
  case (Cons tran rest)
  let ?seen' = "add_seen seen (symbol tran)"
  from Cons.prems have e: "extends final (foldl add_seen ?seen' (map symbol rest))" by simp
  then have "extends final ?seen'" by (rule extends_trans) (rule extends_foldl)
  then have "index_of final (symbol tran) = index_of ?seen' (symbol tran)"
    by (rule index_of_extends) (rule add_seen_mem)
  then show ?case
    using Cons.IH[OF e]
    by (simp add: remapSymbol_add_seen render_tran_def rank_encoding_def)
qed

lemma print_transitions_of_state_render:
  assumes "extends final (foldl add_seen seen (state_symbols lib varAut s))"
  shows "print_transitions_of_state lib useBits nb varNum varAut (out, remap_table seen) s
           = (out @ render_state lib (rank_encoding useBits nb final) varNum varAut s,
              remap_table (foldl add_seen seen (state_symbols lib varAut s)))"
proof (cases "get_transitions_from lib varAut s = []")
  case True
  then show ?thesis
    by (simp add: print_transitions_of_state_def render_state_def state_symbols_def)
next
  case False
  with print_trans_from_render[OF assms[unfolded state_symbols_def],
         of useBits nb varNum True "out @ print_q s @ '' ''"]
  show ?thesis
    by (simp add: print_transitions_of_state_def render_state_def state_symbols_def Let_def)
qed

lemma foldl_render:
  assumes step: "\<And>seen out x. extends final (foldl add_seen seen (syms x)) \<Longrightarrow>
             f (out, remap_table seen) x
               = (out @ render x, remap_table (foldl add_seen seen (syms x)))"
    and "extends final (foldl add_seen seen (concat (map syms xs)))"
  shows "foldl f (out, remap_table seen) xs
           = (out @ concat (map render xs),
              remap_table (foldl add_seen seen (concat (map syms xs))))"
  using assms(2)
proof (induction xs arbitrary: seen out)
  case Nil
  then show ?case by simp
next
  case (Cons x xs)
  let ?seen' = "foldl add_seen seen (syms x)"
  from Cons.prems have e: "extends final (foldl add_seen ?seen' (concat (map syms xs)))" by simp
  then have "extends final ?seen'" by (rule extends_trans) (rule extends_foldl)
  from step[OF this, of out] Cons.IH[OF e, of "out @ render x"] show ?case by simp
qed

lemma fold_err_render:
  assumes step: "\<And>seen out x acc'. extends final (foldl add_seen seen (syms x)) \<Longrightarrow>
             f (out, remap_table seen) x = Inr acc' \<Longrightarrow>
             acc' = (out @ render x, remap_table (foldl add_seen seen (syms x)))"
    and "extends final (foldl add_seen seen (concat (map syms xs)))"
    and "fold_err f (out, remap_table seen) xs = Inr acc'"
  shows "acc' = (out @ concat (map render xs),
                 remap_table (foldl add_seen seen (concat (map syms xs))))"
  using assms(2,3)
proof (induction xs arbitrary: seen out)
  case Nil
  then show ?case by simp
next
  case (Cons x xs)
  let ?seen' = "foldl add_seen seen (syms x)"
  from Cons.prems(1) have e: "extends final (foldl add_seen ?seen' (concat (map syms xs)))" by simp
  then have e1: "extends final ?seen'" by (rule extends_trans) (rule extends_foldl)
  from Cons.prems(2) obtain a1 where a1: "f (out, remap_table seen) x = Inr a1"
    and rest: "fold_err f a1 xs = Inr acc'"
    by (auto split: sum.splits)
  from step[OF e1 a1] have "a1 = (out @ render x, remap_table ?seen')" .
  with Cons.IH[OF e, of "out @ render x"] rest show ?case by simp
qed

lemma print_var_location_render:
  assumes "extends final (foldl add_seen seen (location_symbols lib segments reachable varLoc))"
    and "print_var_location lib useBits nb segments reachable varNum (out, remap_table seen) varLoc
           = Inr acc'"
  shows "acc' = (out @ render_location lib (rank_encoding useBits nb final) segments reachable
                        varNum varLoc,
                 remap_table (foldl add_seen seen (location_symbols lib segments reachable varLoc)))"
proof -
  from assms(2) have "acc' = foldl (print_transitions_of_state lib useBits nb varNum (segments ! varLoc))
                  (out, remap_table seen) (reachable ! varLoc)"
    by (auto simp: print_var_location_def split: if_splits)
  also have "\<dots> = (out @ concat (map (render_state lib (rank_encoding useBits nb final) varNum
                                        (segments ! varLoc)) (reachable ! varLoc)),
                  remap_table (foldl add_seen seen
                     (concat (map (state_symbols lib (segments ! varLoc)) (reachable ! varLoc)))))"
    by (rule foldl_render[where final = final])
       (erule print_transitions_of_state_render, rule assms(1)[unfolded location_symbols_def])
  finally show ?thesis by (simp add: render_location_def location_symbols_def)
qed

lemma print_transitions_render:
  assumes "print_transitions lib useBits nb segments reachable variableLocations
             (out, remap_table []) = Inr acc'"
  shows "acc' = (out @ render_transitions lib
                        (rank_encoding useBits nb
                           (first_seen (emission_symbols lib segments reachable variableLocations)))
                        segments reachable variableLocations,
                 remap_table (first_seen (emission_symbols lib segments reachable variableLocations)))"
proof -
  let ?final = "first_seen (emission_symbols lib segments reachable variableLocations)"
  have e: "extends ?final (foldl add_seen []
             (concat (map (\<lambda>varNum. concat (map (location_symbols lib segments reachable)
                                     (variableLocations ! varNum)))
               [0..<length variableLocations])))"
    by (simp add: first_seen_def emission_symbols_def extends_iff)
  have inner: "acc' = (out @ concat (map (render_location lib (rank_encoding useBits nb ?final)
                                      segments reachable varNum) (variableLocations ! varNum)),
                 remap_table (foldl add_seen seen
                    (concat (map (location_symbols lib segments reachable)
                               (variableLocations ! varNum)))))"
    if "extends ?final (foldl add_seen seen
           (concat (map (location_symbols lib segments reachable) (variableLocations ! varNum))))"
      and "fold_err (print_var_location lib useBits nb segments reachable varNum)
             (out, remap_table seen) (variableLocations ! varNum) = Inr acc'"
    for seen out varNum acc'
    using that(1) that(2)
    by (rule fold_err_render[where final = ?final, rotated]) (erule print_var_location_render)
  from assms have "fold_err (\<lambda>acc varNum.
         fold_err (print_var_location lib useBits nb segments reachable varNum)
           acc (variableLocations ! varNum))
       (out, remap_table []) [0..<length variableLocations] = Inr acc'"
    by (simp add: print_transitions_def)
  with e have "acc' = (out @ concat (map (\<lambda>varNum. concat (map (render_location lib
                          (rank_encoding useBits nb ?final) segments reachable varNum)
                             (variableLocations ! varNum))) [0..<length variableLocations]),
                 remap_table (foldl add_seen []
             (concat (map (\<lambda>varNum. concat (map (location_symbols lib segments reachable)
                                     (variableLocations ! varNum)))
               [0..<length variableLocations]))))"
    by (rule fold_err_render[where final = ?final, rotated]) (erule inner)
  then show ?thesis
    by (simp add: render_transitions_def first_seen_def emission_symbols_def)
qed

lemma collect_initial_states_reachable:
  assumes "collect_initial_states lib segments = Inr st"
  shows "segmentReachableStates st = map (get_reachable_states lib) segments"
  using assms segment_steps_prev[of lib _ "tl segments"]
  by (auto simp: collect_initial_states_def split: list.splits)

lemma remap_table_Nil: "remap_table [] = \<lparr>symbolRemapping = Map.empty, newSymbol = 0\<rparr>"
  by (simp add: remap_table_def)

lemma print_afa_text:
  assumes "print_afa lib aut sg variableLocations alph useBits = Inr afaOutput"
  shows "\<exists>st previousNonFinal neededBits.
           collect_initial_states lib (get_segments_raw sg) = Inr st \<and>
           remove_epsilon_sources (get_epsilon_depths sg) (initStateToPreviousNonFinalStates st)
             = Inr previousNonFinal \<and>
           compute_neededBits (length (get_symbols lib alph)) = Inr neededBits \<and>
           afaOutput =
             print_header useBits
             @ print_initial aut (initialStatesNoodles st)
             @ print_final (stateSetMinus (last (segmentReachableStates st))
                              (finalstates (last (get_segments_raw sg))))
                 (unordered_map_order lib previousNonFinal)
             @ render_transitions lib
                 (rank_encoding useBits neededBits
                    (first_seen (emission_symbols lib (get_segments_raw sg)
                       (map (get_reachable_states lib) (get_segments_raw sg)) variableLocations)))
                 (get_segments_raw sg) (map (get_reachable_states lib) (get_segments_raw sg))
                 variableLocations
             @ concat (map print_stub (allSegmentsInitialStates st))
             @ print_marker"
proof -
  let ?segs = "get_segments_raw sg" and ?eps = "get_epsilon_depths sg"
  from assms obtain st where st: "collect_initial_states lib ?segs = Inr st"
    by (auto simp: print_afa_def Let_def split: sum.splits)
  from assms st obtain pm where
    pm: "remove_epsilon_sources ?eps (initStateToPreviousNonFinalStates st) = Inr pm"
    by (auto simp: print_afa_def Let_def split: sum.splits)
  from assms st pm obtain nb where nb: "compute_neededBits (length (get_symbols lib alph)) = Inr nb"
    by (auto simp: print_afa_def Let_def split: sum.splits)
  let ?start = "print_header useBits @ print_initial aut (initialStatesNoodles st)
                @ print_final (stateSetMinus (last (segmentReachableStates st))
                                 (finalstates (last ?segs))) (unordered_map_order lib pm)"
  from assms st pm nb obtain acc where
    acc: "print_transitions lib useBits nb ?segs (segmentReachableStates st) variableLocations
            (?start, remap_table []) = Inr acc"
    and out: "afaOutput = fst acc @ concat (map print_stub (allSegmentsInitialStates st)) @ print_marker"
    by (auto simp: print_afa_def Let_def remap_table_Nil split: sum.splits)
  from print_transitions_render[OF acc] out
  have "afaOutput = ?start
          @ render_transitions lib
              (rank_encoding useBits nb
                 (first_seen (emission_symbols lib ?segs (segmentReachableStates st) variableLocations)))
              ?segs (segmentReachableStates st) variableLocations
          @ concat (map print_stub (allSegmentsInitialStates st)) @ print_marker"
    by simp
  with st pm nb show ?thesis
    apply (intro exI[of _ st] exI[of _ pm] exI[of _ nb])
    unfolding collect_initial_states_reachable[OF st]
    apply simp
    done
qed

text \<open>
  C9.  The calls of \<^verbatim>\<open>remapSymbol\<close> of one emission start from the empty table with the
  counter \<open>0\<close>.  Every call, whatever was remapped before, writes the encoding of the rank
  of its symbol in the order of first occurrence (\<open>0\<close> for the first symbol seen, \<open>1\<close> for
  the second, ...), on the track of the call; so two calls for the same symbol write
  the same remapped id, and the same text on the same track.  At the end the table maps
  every symbol seen to that rank and the counter is the number of symbols seen.
  Accordingly the transition part of the text written by the printer is the rendering of
  the segments with one encoding for the whole emission: a symbol is written, on every
  track and at every occurrence, as the rank it has among the symbols of the emission in
  the order of their first occurrence.
\<close>

theorem symbol_remapping_stable:
  "remap_calls useBits neededBits calls \<lparr>symbolRemapping = Map.empty, newSymbol = 0\<rparr>
     = (map (\<lambda>call. rank_encoding useBits neededBits (first_seen (map fst calls))
                       (fst call) (snd call))
          calls,
        \<lparr> symbolRemapping =
            (\<lambda>s. if s \<in> set (first_seen (map fst calls))
                  then Some (index_of (first_seen (map fst calls)) s) else None),
          newSymbol = length (first_seen (map fst calls)) \<rparr>)
   \<and> (print_afa lib aut sg variableLocations alph useBits = Inr afaOutput \<longrightarrow>
        (\<exists>width before after.
           compute_neededBits (length (get_symbols lib alph)) = Inr width \<and>
           afaOutput =
             before
             @ render_transitions lib
                 (rank_encoding useBits width
                    (first_seen (emission_symbols lib (get_segments_raw sg)
                       (map (get_reachable_states lib) (get_segments_raw sg)) variableLocations)))
                 (get_segments_raw sg) (map (get_reachable_states lib) (get_segments_raw sg))
                 variableLocations
             @ after))"
proof -
  have calls: "remap_calls useBits neededBits calls \<lparr>symbolRemapping = Map.empty, newSymbol = 0\<rparr>
     = (map (\<lambda>call. rank_encoding useBits neededBits (first_seen (map fst calls))
                       (fst call) (snd call))
          calls,
        \<lparr> symbolRemapping =
            (\<lambda>s. if s \<in> set (first_seen (map fst calls))
                  then Some (index_of (first_seen (map fst calls)) s) else None),
          newSymbol = length (first_seen (map fst calls)) \<rparr>)"
    using remap_calls_table[of useBits neededBits calls "[]"]
    unfolding remap_table_def first_seen_def rank_encoding_def by simp
  have "\<exists>width before after.
           compute_neededBits (length (get_symbols lib alph)) = Inr width \<and>
           afaOutput =
             before
             @ render_transitions lib
                 (rank_encoding useBits width
                    (first_seen (emission_symbols lib (get_segments_raw sg)
                       (map (get_reachable_states lib) (get_segments_raw sg)) variableLocations)))
                 (get_segments_raw sg) (map (get_reachable_states lib) (get_segments_raw sg))
                 variableLocations
             @ after"
    if "print_afa lib aut sg variableLocations alph useBits = Inr afaOutput"
    using print_afa_text[OF that] by (metis append.assoc)
  with calls show ?thesis by blast
qed

lemma demo_emission_symbols:
  "first_seen (emission_symbols demo_lib (get_segments_raw demo_sg)
      (map (get_reachable_states demo_lib) (get_segments_raw demo_sg)) [[0], [1], [2]]) = [0, 1]"
  by code_simp

lemma demo_render:
  "render_transitions demo_lib (rank_encoding True 1 [0, 1]) (get_segments_raw demo_sg)
     (map (get_reachable_states demo_lib) (get_segments_raw demo_sg)) [[0], [1], [2]]
     = ''q0 (!a0 & (q1)) | (a0 & (q2))'' @ endl
       @ ''q3 (!a1 & (q5))'' @ endl
       @ ''q4 (a1 & (q6))'' @ endl
       @ ''q7 (!a2 & (q8))'' @ endl"
  by code_simp

lemma demo_neededBits: "compute_neededBits (length (get_symbols demo_lib ([0, 1], 2))) = Inr 1"
  by code_simp

theorem symbol_remapping_stable_witness:
  "remap_calls False 1 [(5, 0), (7, 0), (5, 1), (7, 0)] \<lparr>symbolRemapping = Map.empty, newSymbol = 0\<rparr>
     = ([''0@t0'', ''1@t0'', ''0@t1'', ''1@t0''],
        \<lparr> symbolRemapping = (\<lambda>s. if s \<in> set [5, 7] then Some (index_of [5, 7] s) else None),
          newSymbol = 2 \<rparr>)
   \<and> print_afa demo_lib demo_aut demo_sg [[0], [1], [2]] ([0, 1], 2) True = Inr demo_afa_bits
   \<and> (\<exists>before after.
         demo_afa_bits
           = before
             @ (''q0 (!a0 & (q1)) | (a0 & (q2))'' @ endl
                @ ''q3 (!a1 & (q5))'' @ endl
                @ ''q4 (a1 & (q6))'' @ endl
                @ ''q7 (!a2 & (q8))'' @ endl)
             @ after)"
proof -
  have f: "first_seen (map fst [(5 :: nat, 0 :: nat), (7, 0), (5, 1), (7, 0)]) = [5, 7]"
    by (simp add: first_seen_def add_seen_def)
  have e: "map (\<lambda>call. rank_encoding False 1 [5, 7] (fst call) (snd call))
             [(5, 0), (7, 0), (5, 1), (7, 0)] = [''0@t0'', ''1@t0'', ''0@t1'', ''1@t0'']"
    by code_simp
  note t = symbol_remapping_stable[of False 1 "[(5, 0), (7, 0), (5, 1), (7, 0)]"
             demo_lib demo_aut demo_sg "[[0], [1], [2]]" "([0, 1], 2)" demo_afa_bits]
  from t have c: "remap_calls False 1 [(5, 0), (7, 0), (5, 1), (7, 0)]
                    \<lparr>symbolRemapping = Map.empty, newSymbol = 0\<rparr>
     = ([''0@t0'', ''1@t0'', ''0@t1'', ''1@t0''],
        \<lparr> symbolRemapping = (\<lambda>s. if s \<in> set [5, 7] then Some (index_of [5, 7] s) else None),
          newSymbol = 2 \<rparr>)"
    unfolding f e by simp
  note u = symbol_remapping_stable[of True 1 "[]"
             demo_lib demo_aut demo_sg "[[0], [1], [2]]" "([0, 1], 2)" demo_afa_bits]
  from u demo_print_afa_bits obtain width before after where
    w: "compute_neededBits (length (get_symbols demo_lib ([0, 1], 2))) = Inr width"
    and o: "demo_afa_bits =
             before
             @ render_transitions demo_lib
                 (rank_encoding True width
                    (first_seen (emission_symbols demo_lib (get_segments_raw demo_sg)
                       (map (get_reachable_states demo_lib) (get_segments_raw demo_sg))
                       [[0], [1], [2]])))
                 (get_segments_raw demo_sg)
                 (map (get_reachable_states demo_lib) (get_segments_raw demo_sg))
                 [[0], [1], [2]]
             @ after"
    by blast
  from w have "width = 1" unfolding demo_neededBits by simp
  with o have "demo_afa_bits
           = before
             @ (''q0 (!a0 & (q1)) | (a0 & (q2))'' @ endl
                @ ''q3 (!a1 & (q5))'' @ endl
                @ ''q4 (a1 & (q6))'' @ endl
                @ ''q7 (!a2 & (q8))'' @ endl)
             @ after"
    by (simp only: demo_emission_symbols demo_render)
  with c demo_print_afa_bits show ?thesis by blast
qed

end
